theory Spec2Isabelle
  imports Main
begin

section \<open>The syntax tree\<close>

text \<open>
  The engine walks values of Go's \<^verbatim>\<open>go/ast\<close> package. Every concrete node type of that
  package is one constructor of \<open>Node\<close>, with the child fields in the order of the struct
  declaration; positions (\<^verbatim>\<open>token.Pos\<close>), scopes and objects, which the engine never
  reads, are left out, and the remaining leaf data is kept (names, literal values, operator
  tokens, flags).

  A value of type \<open>Node\<close> is what a Go variable of interface type \<^verbatim>\<open>ast.Node\<close> can hold:
  \<^item> \<open>Nil\<close> is the nil interface; in a field of pointer type it is the nil pointer;
  \<^item> \<open>NilPtr k\<close> is an interface value holding a nil pointer of the node type \<open>k\<close>;
  \<^item> \<open>Other t\<close> is a value of a type named \<open>t\<close> that implements \<^verbatim>\<open>ast.Node\<close> and is not
    one of the node types of the dispatch switch;
  \<^item> every other constructor is a pointer to an allocated node of that type.

  A slice is \<open>None\<close>, the nil slice, or \<open>Some xs\<close>, a slice that is not nil with the
  elements \<open>xs\<close> (\<open>Some []\<close> is the empty slice that \<^verbatim>\<open>make\<close> returns for the length 0);
  \<open>elems\<close> gives the elements, none for the nil slice. The map \<^verbatim>\<open>Package.Files\<close> is, in
  the same way, \<open>None\<close> or an association list in the order in which the \<^verbatim>\<open>range\<close> loop
  of the run enumerates it. Trees are values: the model covers trees without sharing, and
  visitors that change the tree through \<^verbatim>\<open>Replace\<close> only.
\<close>

type_synonym token = nat

type_synonym 'a slice = "'a list option"

definition elems :: "'a slice \<Rightarrow> 'a list" where
  "elems list = (case list of None \<Rightarrow> [] | Some xs \<Rightarrow> xs)"

datatype (plugins only: code size) kind =
    KComment | KCommentGroup | KField | KFieldList
  | KBadExpr | KIdent | KEllipsis | KBasicLit | KFuncLit | KCompositeLit
  | KParenExpr | KSelectorExpr | KIndexExpr | KSliceExpr | KTypeAssertExpr
  | KCallExpr | KStarExpr | KUnaryExpr | KBinaryExpr | KKeyValueExpr
  | KArrayType | KStructType | KFuncType | KInterfaceType | KMapType | KChanType
  | KBadStmt | KDeclStmt | KEmptyStmt | KLabeledStmt | KExprStmt | KSendStmt
  | KIncDecStmt | KAssignStmt | KGoStmt | KDeferStmt | KReturnStmt | KBranchStmt
  | KBlockStmt | KIfStmt | KCaseClause | KSwitchStmt | KTypeSwitchStmt
  | KCommClause | KSelectStmt | KForStmt | KRangeStmt
  | KImportSpec | KValueSpec | KTypeSpec | KBadDecl | KGenDecl | KFuncDecl
  | KFile | KPackage

datatype (plugins only: code size) Node =
    Nil
  | NilPtr kind
  | Other string
  | Comment string
  | CommentGroup "Node slice"
  | Field Node "Node slice" Node Node Node
  | FieldList "Node slice"
  | BadExpr
  | Ident string
  | Ellipsis Node
  | BasicLit token string
  | FuncLit Node Node
  | CompositeLit Node "Node slice"
  | ParenExpr Node
  | SelectorExpr Node Node
  | IndexExpr Node Node
  | SliceExpr Node Node Node Node bool
  | TypeAssertExpr Node Node
  | CallExpr Node "Node slice"
  | StarExpr Node
  | UnaryExpr token Node
  | BinaryExpr Node token Node
  | KeyValueExpr Node Node
  | ArrayType Node Node
  | StructType Node bool
  | FuncType Node Node
  | InterfaceType Node bool
  | MapType Node Node
  | ChanType nat Node
  | BadStmt
  | DeclStmt Node
  | EmptyStmt bool
  | LabeledStmt Node Node
  | ExprStmt Node
  | SendStmt Node Node
  | IncDecStmt Node token
  | AssignStmt "Node slice" token "Node slice"
  | GoStmt Node
  | DeferStmt Node
  | ReturnStmt "Node slice"
  | BranchStmt token Node
  | BlockStmt "Node slice"
  | IfStmt Node Node Node Node
  | CaseClause "Node slice" "Node slice"
  | SwitchStmt Node Node Node
  | TypeSwitchStmt Node Node Node
  | CommClause Node "Node slice"
  | SelectStmt Node
  | ForStmt Node Node Node Node
  | RangeStmt Node Node token Node Node
  | ImportSpec Node Node Node Node
  | ValueSpec Node "Node slice" Node "Node slice" Node
  | TypeSpec Node Node Node Node
  | BadDecl
  | GenDecl Node token "Node slice"
  | FuncDecl Node Node Node Node Node
  | File Node Node "Node slice" "Node slice" "Node slice" "Node slice"
  | Package string "(string \<times> Node) slice"

section \<open>Panics, the inspector state and the computation type\<close>

text \<open>
  \<open>UnexpectedNodeType\<close> is the \<^verbatim>\<open>panic("astor.Inspect")\<close> of the default branch,
  \<open>InterfaceConversion\<close> a failed type assertion, \<open>NilDereference\<close> a field read through a
  nil pointer. \<open>OutOfFuel\<close> is not a result of the program: it marks a run of the
  fuel-bounded model that was cut off.
\<close>

datatype panic = UnexpectedNodeType | InterfaceConversion | NilDereference

datatype 'a outcome = Ok 'a | Panic panic | OutOfFuel

text \<open>
  \<^verbatim>\<open>inspectorImpl\<close> has the fields \<^verbatim>\<open>mtx\<close>, \<^verbatim>\<open>node\<close> and \<^verbatim>\<open>visitorImpl\<close>. The visitor
  is fixed at construction and is passed to the functions below as the parameter \<open>v\<close>; the
  mutex is left out (one walk at a time). The field \<open>env\<close> is not a field of the struct: it
  stands for the variables the visitor closure has captured, which the visitor may update.
\<close>

record 'e inspectorImpl =
  node :: Node
  env :: 'e

text \<open>
  \<^verbatim>\<open>type Visitor func(i Inspector, node ast.Node) (recurse bool)\<close>: the visitor gets the
  inspector and the node, and returns its decision together with the inspector as its calls
  to \<^verbatim>\<open>Replace\<close> and its own assignments have left it.
\<close>

type_synonym 'e Visitor = "'e inspectorImpl \<Rightarrow> Node \<Rightarrow> bool \<times> 'e inspectorImpl"

type_synonym ('a, 'e) M = "'e inspectorImpl \<Rightarrow> 'a outcome \<times> 'e inspectorImpl"

definition returnM :: "'a \<Rightarrow> ('a, 'e) M" where
  "returnM a = (\<lambda>s. (Ok a, s))"

definition panicM :: "panic \<Rightarrow> ('a, 'e) M" where
  "panicM p = (\<lambda>s. (Panic p, s))"

definition outOfFuel :: "('a, 'e) M" where
  "outOfFuel = (\<lambda>s. (OutOfFuel, s))"

definition bindM :: "('a, 'e) M \<Rightarrow> ('a \<Rightarrow> ('b, 'e) M) \<Rightarrow> ('b, 'e) M" where
  "bindM m f = (\<lambda>s. case m s of
       (Ok a, s') \<Rightarrow> f a s'
     | (Panic p, s') \<Rightarrow> (Panic p, s')
     | (OutOfFuel, s') \<Rightarrow> (OutOfFuel, s'))"

definition NewInspector :: "'e \<Rightarrow> 'e inspectorImpl" where
  "NewInspector e = \<lparr>node = Nil, env = e\<rparr>"

definition Current :: "'e inspectorImpl \<Rightarrow> Node" where
  "Current i = node i"

definition Replace :: "Node \<Rightarrow> 'e inspectorImpl \<Rightarrow> 'e inspectorImpl" where
  "Replace n i = i\<lparr>node := n\<rparr>"

section \<open>Dynamic types and type assertions\<close>

primrec dynType :: "Node \<Rightarrow> kind option" where
  "dynType Nil = None"
| "dynType (NilPtr k) = Some k"
| "dynType (Other t) = None"
| "dynType (Comment text) = Some KComment"
| "dynType (CommentGroup list) = Some KCommentGroup"
| "dynType (Field doc names type tag comment) = Some KField"
| "dynType (FieldList list) = Some KFieldList"
| "dynType BadExpr = Some KBadExpr"
| "dynType (Ident name) = Some KIdent"
| "dynType (Ellipsis elt) = Some KEllipsis"
| "dynType (BasicLit tk v) = Some KBasicLit"
| "dynType (FuncLit type body) = Some KFuncLit"
| "dynType (CompositeLit type elts) = Some KCompositeLit"
| "dynType (ParenExpr x) = Some KParenExpr"
| "dynType (SelectorExpr x sel) = Some KSelectorExpr"
| "dynType (IndexExpr x index) = Some KIndexExpr"
| "dynType (SliceExpr x low high mx slice3) = Some KSliceExpr"
| "dynType (TypeAssertExpr x type) = Some KTypeAssertExpr"
| "dynType (CallExpr fn args) = Some KCallExpr"
| "dynType (StarExpr x) = Some KStarExpr"
| "dynType (UnaryExpr op x) = Some KUnaryExpr"
| "dynType (BinaryExpr x op y) = Some KBinaryExpr"
| "dynType (KeyValueExpr key val) = Some KKeyValueExpr"
| "dynType (ArrayType len elt) = Some KArrayType"
| "dynType (StructType flds incomplete) = Some KStructType"
| "dynType (FuncType params results) = Some KFuncType"
| "dynType (InterfaceType methods incomplete) = Some KInterfaceType"
| "dynType (MapType key val) = Some KMapType"
| "dynType (ChanType dir val) = Some KChanType"
| "dynType BadStmt = Some KBadStmt"
| "dynType (DeclStmt decl) = Some KDeclStmt"
| "dynType (EmptyStmt implicit) = Some KEmptyStmt"
| "dynType (LabeledStmt label stmt) = Some KLabeledStmt"
| "dynType (ExprStmt x) = Some KExprStmt"
| "dynType (SendStmt chan val) = Some KSendStmt"
| "dynType (IncDecStmt x tok) = Some KIncDecStmt"
| "dynType (AssignStmt lhs tok rhs) = Some KAssignStmt"
| "dynType (GoStmt call) = Some KGoStmt"
| "dynType (DeferStmt call) = Some KDeferStmt"
| "dynType (ReturnStmt results) = Some KReturnStmt"
| "dynType (BranchStmt tok label) = Some KBranchStmt"
| "dynType (BlockStmt list) = Some KBlockStmt"
| "dynType (IfStmt init cond body els) = Some KIfStmt"
| "dynType (CaseClause list body) = Some KCaseClause"
| "dynType (SwitchStmt init tag body) = Some KSwitchStmt"
| "dynType (TypeSwitchStmt init assign body) = Some KTypeSwitchStmt"
| "dynType (CommClause comm body) = Some KCommClause"
| "dynType (SelectStmt body) = Some KSelectStmt"
| "dynType (ForStmt init cond post body) = Some KForStmt"
| "dynType (RangeStmt key val tok x body) = Some KRangeStmt"
| "dynType (ImportSpec doc name path comment) = Some KImportSpec"
| "dynType (ValueSpec doc names type vals comment) = Some KValueSpec"
| "dynType (TypeSpec doc name type comment) = Some KTypeSpec"
| "dynType BadDecl = Some KBadDecl"
| "dynType (GenDecl doc tok specs) = Some KGenDecl"
| "dynType (FuncDecl doc recv name type body) = Some KFuncDecl"
| "dynType (File doc name decls imports unresolved comments) = Some KFile"
| "dynType (Package name files) = Some KPackage"

definition implementsExpr :: "kind \<Rightarrow> bool" where
  "implementsExpr k = (k \<in> set [KBadExpr, KIdent, KEllipsis, KBasicLit, KFuncLit, KCompositeLit,
     KParenExpr, KSelectorExpr, KIndexExpr, KSliceExpr, KTypeAssertExpr, KCallExpr, KStarExpr,
     KUnaryExpr, KBinaryExpr, KKeyValueExpr, KArrayType, KStructType, KFuncType,
     KInterfaceType, KMapType, KChanType])"

definition implementsStmt :: "kind \<Rightarrow> bool" where
  "implementsStmt k = (k \<in> set [KBadStmt, KDeclStmt, KEmptyStmt, KLabeledStmt, KExprStmt,
     KSendStmt, KIncDecStmt, KAssignStmt, KGoStmt, KDeferStmt, KReturnStmt, KBranchStmt,
     KBlockStmt, KIfStmt, KCaseClause, KSwitchStmt, KTypeSwitchStmt, KCommClause,
     KSelectStmt, KForStmt, KRangeStmt])"

definition implementsDecl :: "kind \<Rightarrow> bool" where
  "implementsDecl k = (k \<in> set [KBadDecl, KGenDecl, KFuncDecl])"

definition implementsSpec :: "kind \<Rightarrow> bool" where
  "implementsSpec k = (k \<in> set [KImportSpec, KValueSpec, KTypeSpec])"

text \<open>
  \<open>assertIface impl x\<close> is the assertion \<^verbatim>\<open>x.(ast.Expr)\<close> (or \<^verbatim>\<open>ast.Stmt\<close>, \<^verbatim>\<open>ast.Decl\<close>,
  \<^verbatim>\<open>ast.Spec\<close>): it panics on the nil interface and on a dynamic type outside the
  interface. \<open>assertPtr k x\<close> is \<^verbatim>\<open>x.(*ast.K)\<close>; a nil pointer of the right type passes and
  is stored as the nil pointer. \<open>iface k x\<close> is the conversion of a field of type
  \<^verbatim>\<open>*ast.K\<close> to \<^verbatim>\<open>ast.Node\<close> when it is passed to \<^verbatim>\<open>Inspect\<close>.
\<close>

definition assertIface :: "(kind \<Rightarrow> bool) \<Rightarrow> Node \<Rightarrow> (Node, 'e) M" where
  "assertIface impl x = (case dynType x of
       None \<Rightarrow> panicM InterfaceConversion
     | Some k \<Rightarrow> if impl k then returnM x else panicM InterfaceConversion)"

definition assertPtr :: "kind \<Rightarrow> Node \<Rightarrow> (Node, 'e) M" where
  "assertPtr k x = (case dynType x of
       None \<Rightarrow> panicM InterfaceConversion
     | Some k' \<Rightarrow> if k' = k then returnM (case x of NilPtr _ \<Rightarrow> Nil | _ \<Rightarrow> x)
                  else panicM InterfaceConversion)"

definition iface :: "kind \<Rightarrow> Node \<Rightarrow> Node" where
  "iface k x = (if x = Nil then NilPtr k else x)"

section \<open>The slots of the dispatch switch\<close>

text \<open>
  The parameter \<open>rec\<close> is the recursive call: \<^verbatim>\<open>Inspect(i, x)\<close> in walk.go,
  \<^verbatim>\<open>ii.Inspect(x)\<close> in the method. \<open>inspectExpr rec x\<close> is \<^verbatim>\<open>Inspect(i, x).(ast.Expr)\<close>,
  \<open>inspectPtr k rec x\<close> is \<^verbatim>\<open>Inspect(i, x).(*ast.K)\<close>, and \<open>ifPresent x m\<close> is the guard
  \<^verbatim>\<open>if x != nil { x = m }\<close>.
\<close>

definition inspectExpr :: "(Node \<Rightarrow> (Node, 'e) M) \<Rightarrow> Node \<Rightarrow> (Node, 'e) M" where
  "inspectExpr rec x = bindM (rec x) (assertIface implementsExpr)"

definition inspectStmt :: "(Node \<Rightarrow> (Node, 'e) M) \<Rightarrow> Node \<Rightarrow> (Node, 'e) M" where
  "inspectStmt rec x = bindM (rec x) (assertIface implementsStmt)"

definition inspectDecl :: "(Node \<Rightarrow> (Node, 'e) M) \<Rightarrow> Node \<Rightarrow> (Node, 'e) M" where
  "inspectDecl rec x = bindM (rec x) (assertIface implementsDecl)"

definition inspectSpec :: "(Node \<Rightarrow> (Node, 'e) M) \<Rightarrow> Node \<Rightarrow> (Node, 'e) M" where
  "inspectSpec rec x = bindM (rec x) (assertIface implementsSpec)"

definition inspectPtr :: "kind \<Rightarrow> (Node \<Rightarrow> (Node, 'e) M) \<Rightarrow> Node \<Rightarrow> (Node, 'e) M" where
  "inspectPtr k rec x = bindM (rec (iface k x)) (assertPtr k)"

definition ifPresent :: "Node \<Rightarrow> (Node, 'e) M \<Rightarrow> (Node, 'e) M" where
  "ifPresent x m = (if x \<noteq> Nil then m else returnM x)"

text \<open>
  \<open>rangeList f xs\<close> is the loop \<^verbatim>\<open>for l, x := range list { ... = f(x) }\<close> over the elements
  \<open>xs\<close> of a slice: the elements in order, each result kept at the index of its element.
\<close>

primrec rangeList :: "('a \<Rightarrow> ('b, 'e) M) \<Rightarrow> 'a list \<Rightarrow> ('b list, 'e) M" where
  "rangeList f [] = returnM []"
| "rangeList f (x # xs) =
     bindM (f x) (\<lambda>y. bindM (rangeList f xs) (\<lambda>ys. returnM (y # ys)))"

text \<open>
  The four list helpers. Each allocates \<^verbatim>\<open>newList := make([]T, len(list))\<close>, stores the
  result for the element at index \<open>l\<close> in \<^verbatim>\<open>newList[l]\<close> and returns \<^verbatim>\<open>newList\<close>: the slice
  returned is never nil, also when \<^verbatim>\<open>list\<close> is nil.
\<close>

definition inspectIdentList :: "(Node \<Rightarrow> (Node, 'e) M) \<Rightarrow> Node slice \<Rightarrow> (Node slice, 'e) M" where
  "inspectIdentList rec list =
     bindM (rangeList (inspectPtr KIdent rec) (elems list)) (\<lambda>newList. returnM (Some newList))"

definition inspectExprList :: "(Node \<Rightarrow> (Node, 'e) M) \<Rightarrow> Node slice \<Rightarrow> (Node slice, 'e) M" where
  "inspectExprList rec list =
     bindM (rangeList (inspectExpr rec) (elems list)) (\<lambda>newList. returnM (Some newList))"

definition inspectStmtList :: "(Node \<Rightarrow> (Node, 'e) M) \<Rightarrow> Node slice \<Rightarrow> (Node slice, 'e) M" where
  "inspectStmtList rec list =
     bindM (rangeList (inspectStmt rec) (elems list)) (\<lambda>newList. returnM (Some newList))"

definition inspectDeclList :: "(Node \<Rightarrow> (Node, 'e) M) \<Rightarrow> Node slice \<Rightarrow> (Node slice, 'e) M" where
  "inspectDeclList rec list =
     bindM (rangeList (inspectDecl rec) (elems list)) (\<lambda>newList. returnM (Some newList))"

text \<open>
  \<open>rangeInPlace f list\<close> is the loop \<^verbatim>\<open>for l, x := range n.List { n.List[l] = f(x) }\<close> that
  the switch runs on the slice of the node itself (and on the map of a package): it
  allocates nothing, so a nil slice stays nil.
\<close>

definition rangeInPlace :: "('a \<Rightarrow> ('a, 'e) M) \<Rightarrow> 'a slice \<Rightarrow> ('a slice, 'e) M" where
  "rangeInPlace f list = (case list of
       None \<Rightarrow> returnM None
     | Some xs \<Rightarrow> bindM (rangeList f xs) (\<lambda>ys. returnM (Some ys)))"

definition inspectFile :: "(Node \<Rightarrow> (Node, 'e) M) \<Rightarrow> string \<times> Node \<Rightarrow> (string \<times> Node, 'e) M" where
  "inspectFile rec lf = bindM (inspectPtr KFile rec (snd lf)) (\<lambda>f'. returnM (fst lf, f'))"

section \<open>The dispatch switch\<close>

text \<open>
  \<open>inspectChildren rec n\<close> is the statement \<^verbatim>\<open>switch n := node.(type) { ... }\<close> of
  \<^verbatim>\<open>Inspect\<close>, the same in walk.go and in the method but for the form of the recursive
  call. The cases are in the order of the source. Each assignment \<^verbatim>\<open>n.F = ...\<close> writes a
  field of the node in place; the model returns the node with the values assigned in
  these fields and the other fields as they were.
  A case whose pointer \<open>n\<close> is nil reads a field through it and panics, unless the case has
  nothing to do. The nil interface and a type outside the switch reach the default branch
  (which also prints the type).
\<close>

primrec inspectChildren :: "(Node \<Rightarrow> (Node, 'e) M) \<Rightarrow> Node \<Rightarrow> (Node, 'e) M" where
  "inspectChildren rec (Comment text) =
     returnM (Comment text)"
| "inspectChildren rec (CommentGroup list) =
     bindM (rangeInPlace (inspectPtr KComment rec) list) (\<lambda>list'.
     returnM (CommentGroup list'))"
| "inspectChildren rec (Field doc names type tag comment) =
     bindM (ifPresent doc (inspectPtr KCommentGroup rec doc)) (\<lambda>doc'.
     bindM (inspectIdentList rec names) (\<lambda>names'.
     bindM (inspectExpr rec type) (\<lambda>type'.
     bindM (ifPresent tag (inspectPtr KBasicLit rec tag)) (\<lambda>tag'.
     bindM (ifPresent comment (inspectPtr KCommentGroup rec comment)) (\<lambda>comment'.
     returnM (Field doc' names' type' tag' comment'))))))"
| "inspectChildren rec (FieldList list) =
     bindM (rangeInPlace (inspectPtr KField rec) list) (\<lambda>list'.
     returnM (FieldList list'))"
| "inspectChildren rec BadExpr =
     returnM BadExpr"
| "inspectChildren rec (Ident name) =
     returnM (Ident name)"
| "inspectChildren rec (BasicLit tk val) =
     returnM (BasicLit tk val)"
| "inspectChildren rec (Ellipsis elt) =
     bindM (ifPresent elt (inspectExpr rec elt)) (\<lambda>elt'.
     returnM (Ellipsis elt'))"
| "inspectChildren rec (FuncLit type body) =
     bindM (inspectPtr KFuncType rec type) (\<lambda>type'.
     bindM (inspectPtr KBlockStmt rec body) (\<lambda>body'.
     returnM (FuncLit type' body')))"
| "inspectChildren rec (CompositeLit type elts) =
     bindM (ifPresent type (inspectExpr rec type)) (\<lambda>type'.
     bindM (inspectExprList rec elts) (\<lambda>elts'.
     returnM (CompositeLit type' elts')))"
| "inspectChildren rec (ParenExpr x) =
     bindM (inspectExpr rec x) (\<lambda>x'.
     returnM (ParenExpr x'))"
| "inspectChildren rec (SelectorExpr x sel) =
     bindM (inspectExpr rec x) (\<lambda>x'.
     bindM (inspectPtr KIdent rec sel) (\<lambda>sel'.
     returnM (SelectorExpr x' sel')))"
| "inspectChildren rec (IndexExpr x index) =
     bindM (inspectExpr rec x) (\<lambda>x'.
     bindM (inspectExpr rec index) (\<lambda>index'.
     returnM (IndexExpr x' index')))"
| "inspectChildren rec (SliceExpr x low high mx slice3) =
     bindM (inspectExpr rec x) (\<lambda>x'.
     bindM (ifPresent low (inspectExpr rec low)) (\<lambda>low'.
     bindM (ifPresent high (inspectExpr rec high)) (\<lambda>high'.
     bindM (ifPresent mx (inspectExpr rec mx)) (\<lambda>mx'.
     returnM (SliceExpr x' low' high' mx' slice3)))))"
| "inspectChildren rec (TypeAssertExpr x type) =
     bindM (inspectExpr rec x) (\<lambda>x'.
     bindM (ifPresent type (inspectExpr rec type)) (\<lambda>type'.
     returnM (TypeAssertExpr x' type')))"
| "inspectChildren rec (CallExpr fn args) =
     bindM (inspectExpr rec fn) (\<lambda>fn'.
     bindM (inspectExprList rec args) (\<lambda>args'.
     returnM (CallExpr fn' args')))"
| "inspectChildren rec (StarExpr x) =
     bindM (inspectExpr rec x) (\<lambda>x'.
     returnM (StarExpr x'))"
| "inspectChildren rec (UnaryExpr op x) =
     bindM (inspectExpr rec x) (\<lambda>x'.
     returnM (UnaryExpr op x'))"
| "inspectChildren rec (BinaryExpr x op y) =
     bindM (inspectExpr rec x) (\<lambda>x'.
     bindM (inspectExpr rec y) (\<lambda>y'.
     returnM (BinaryExpr x' op y')))"
| "inspectChildren rec (KeyValueExpr key val) =
     bindM (inspectExpr rec key) (\<lambda>key'.
     bindM (inspectExpr rec val) (\<lambda>val'.
     returnM (KeyValueExpr key' val')))"
| "inspectChildren rec (ArrayType len elt) =
     bindM (ifPresent len (inspectExpr rec len)) (\<lambda>len'.
     bindM (inspectExpr rec elt) (\<lambda>elt'.
     returnM (ArrayType len' elt')))"
| "inspectChildren rec (StructType flds incomplete) =
     bindM (inspectPtr KFieldList rec flds) (\<lambda>flds'.
     returnM (StructType flds' incomplete))"
| "inspectChildren rec (FuncType params results) =
     bindM (ifPresent params (inspectPtr KFieldList rec params)) (\<lambda>params'.
     bindM (ifPresent results (inspectPtr KFieldList rec results)) (\<lambda>results'.
     returnM (FuncType params' results')))"
| "inspectChildren rec (InterfaceType methods incomplete) =
     bindM (inspectPtr KFieldList rec methods) (\<lambda>methods'.
     returnM (InterfaceType methods' incomplete))"
| "inspectChildren rec (MapType key val) =
     bindM (inspectExpr rec key) (\<lambda>key'.
     bindM (inspectExpr rec val) (\<lambda>val'.
     returnM (MapType key' val')))"
| "inspectChildren rec (ChanType dir val) =
     bindM (inspectExpr rec val) (\<lambda>val'.
     returnM (ChanType dir val'))"
| "inspectChildren rec BadStmt =
     returnM BadStmt"
| "inspectChildren rec (DeclStmt decl) =
     bindM (inspectDecl rec decl) (\<lambda>decl'.
     returnM (DeclStmt decl'))"
| "inspectChildren rec (EmptyStmt implicit) =
     returnM (EmptyStmt implicit)"
| "inspectChildren rec (LabeledStmt label stmt) =
     bindM (inspectPtr KIdent rec label) (\<lambda>label'.
     bindM (inspectStmt rec stmt) (\<lambda>stmt'.
     returnM (LabeledStmt label' stmt')))"
| "inspectChildren rec (ExprStmt x) =
     bindM (inspectExpr rec x) (\<lambda>x'.
     returnM (ExprStmt x'))"
| "inspectChildren rec (SendStmt chan val) =
     bindM (inspectExpr rec chan) (\<lambda>chan'.
     bindM (inspectExpr rec val) (\<lambda>val'.
     returnM (SendStmt chan' val')))"
| "inspectChildren rec (IncDecStmt x tok) =
     bindM (inspectExpr rec x) (\<lambda>x'.
     returnM (IncDecStmt x' tok))"
| "inspectChildren rec (AssignStmt lhs tok rhs) =
     bindM (inspectExprList rec lhs) (\<lambda>lhs'.
     bindM (inspectExprList rec rhs) (\<lambda>rhs'.
     returnM (AssignStmt lhs' tok rhs')))"
| "inspectChildren rec (GoStmt call) =
     bindM (inspectPtr KCallExpr rec call) (\<lambda>call'.
     returnM (GoStmt call'))"
| "inspectChildren rec (DeferStmt call) =
     bindM (inspectPtr KCallExpr rec call) (\<lambda>call'.
     returnM (DeferStmt call'))"
| "inspectChildren rec (ReturnStmt results) =
     bindM (inspectExprList rec results) (\<lambda>results'.
     returnM (ReturnStmt results'))"
| "inspectChildren rec (BranchStmt tok label) =
     bindM (ifPresent label (inspectPtr KIdent rec label)) (\<lambda>label'.
     returnM (BranchStmt tok label'))"
| "inspectChildren rec (BlockStmt list) =
     bindM (inspectStmtList rec list) (\<lambda>list'.
     returnM (BlockStmt list'))"
| "inspectChildren rec (IfStmt init cond body els) =
     bindM (ifPresent init (inspectStmt rec init)) (\<lambda>init'.
     bindM (inspectExpr rec cond) (\<lambda>cond'.
     bindM (inspectPtr KBlockStmt rec body) (\<lambda>body'.
     bindM (ifPresent els (inspectStmt rec els)) (\<lambda>els'.
     returnM (IfStmt init' cond' body' els')))))"
| "inspectChildren rec (CaseClause list body) =
     bindM (inspectExprList rec list) (\<lambda>list'.
     bindM (inspectStmtList rec body) (\<lambda>body'.
     returnM (CaseClause list' body')))"
| "inspectChildren rec (SwitchStmt init tag body) =
     bindM (ifPresent init (inspectStmt rec init)) (\<lambda>init'.
     bindM (ifPresent tag (inspectExpr rec tag)) (\<lambda>tag'.
     bindM (inspectPtr KBlockStmt rec body) (\<lambda>body'.
     returnM (SwitchStmt init' tag' body'))))"
| "inspectChildren rec (TypeSwitchStmt init assign body) =
     bindM (ifPresent init (inspectStmt rec init)) (\<lambda>init'.
     bindM (inspectStmt rec assign) (\<lambda>assign'.
     bindM (inspectPtr KBlockStmt rec body) (\<lambda>body'.
     returnM (TypeSwitchStmt init' assign' body'))))"
| "inspectChildren rec (CommClause comm body) =
     bindM (ifPresent comm (inspectStmt rec comm)) (\<lambda>comm'.
     bindM (inspectStmtList rec body) (\<lambda>body'.
     returnM (CommClause comm' body')))"
| "inspectChildren rec (SelectStmt body) =
     bindM (inspectPtr KBlockStmt rec body) (\<lambda>body'.
     returnM (SelectStmt body'))"
| "inspectChildren rec (ForStmt init cond post body) =
     bindM (ifPresent init (inspectStmt rec init)) (\<lambda>init'.
     bindM (ifPresent cond (inspectExpr rec cond)) (\<lambda>cond'.
     bindM (ifPresent post (inspectStmt rec post)) (\<lambda>post'.
     bindM (inspectPtr KBlockStmt rec body) (\<lambda>body'.
     returnM (ForStmt init' cond' post' body')))))"
| "inspectChildren rec (RangeStmt key val tok x body) =
     bindM (ifPresent key (inspectExpr rec key)) (\<lambda>key'.
     bindM (ifPresent val (inspectExpr rec val)) (\<lambda>val'.
     bindM (inspectExpr rec x) (\<lambda>x'.
     bindM (inspectPtr KBlockStmt rec body) (\<lambda>body'.
     returnM (RangeStmt key' val' tok x' body')))))"
| "inspectChildren rec (ImportSpec doc name path comment) =
     bindM (ifPresent doc (inspectPtr KCommentGroup rec doc)) (\<lambda>doc'.
     bindM (ifPresent name (inspectPtr KIdent rec name)) (\<lambda>name'.
     bindM (inspectPtr KBasicLit rec path) (\<lambda>path'.
     bindM (ifPresent comment (inspectPtr KCommentGroup rec comment)) (\<lambda>comment'.
     returnM (ImportSpec doc' name' path' comment')))))"
| "inspectChildren rec (ValueSpec doc names type vals comment) =
     bindM (ifPresent doc (inspectPtr KCommentGroup rec doc)) (\<lambda>doc'.
     bindM (inspectIdentList rec names) (\<lambda>names'.
     bindM (ifPresent type (inspectExpr rec type)) (\<lambda>type'.
     bindM (inspectExprList rec vals) (\<lambda>vals'.
     bindM (ifPresent comment (inspectPtr KCommentGroup rec comment)) (\<lambda>comment'.
     returnM (ValueSpec doc' names' type' vals' comment'))))))"
| "inspectChildren rec (TypeSpec doc name type comment) =
     bindM (ifPresent doc (inspectPtr KCommentGroup rec doc)) (\<lambda>doc'.
     bindM (inspectPtr KIdent rec name) (\<lambda>name'.
     bindM (inspectExpr rec type) (\<lambda>type'.
     bindM (ifPresent comment (inspectPtr KCommentGroup rec comment)) (\<lambda>comment'.
     returnM (TypeSpec doc' name' type' comment')))))"
| "inspectChildren rec BadDecl =
     returnM BadDecl"
| "inspectChildren rec (GenDecl doc tok specs) =
     bindM (ifPresent doc (inspectPtr KCommentGroup rec doc)) (\<lambda>doc'.
     bindM (rangeInPlace (inspectSpec rec) specs) (\<lambda>specs'.
     returnM (GenDecl doc' tok specs')))"
| "inspectChildren rec (FuncDecl doc recv name type body) =
     bindM (ifPresent doc (inspectPtr KCommentGroup rec doc)) (\<lambda>doc'.
     bindM (ifPresent recv (inspectPtr KFieldList rec recv)) (\<lambda>recv'.
     bindM (inspectPtr KIdent rec name) (\<lambda>name'.
     bindM (inspectPtr KFuncType rec type) (\<lambda>type'.
     bindM (ifPresent body (inspectPtr KBlockStmt rec body)) (\<lambda>body'.
     returnM (FuncDecl doc' recv' name' type' body'))))))"
| "inspectChildren rec (File doc name decls imports unresolved comments) =
     bindM (ifPresent doc (inspectPtr KCommentGroup rec doc)) (\<lambda>doc'.
     bindM (inspectPtr KIdent rec name) (\<lambda>name'.
     bindM (inspectDeclList rec decls) (\<lambda>decls'.
     returnM (File doc' name' decls' imports unresolved comments))))"
| "inspectChildren rec (Package name files) =
     bindM (rangeInPlace (inspectFile rec) files) (\<lambda>files'.
     returnM (Package name files'))"
| "inspectChildren rec (NilPtr k) =
     (if k \<in> set [KComment, KBadExpr, KIdent, KBasicLit, KBadStmt, KEmptyStmt, KBadDecl]
      then returnM (NilPtr k) else panicM NilDereference)"
| "inspectChildren rec Nil = panicM UnexpectedNodeType"
| "inspectChildren rec (Other t) = panicM UnexpectedNodeType"

section \<open>The nodes the switch passes to the recursive call\<close>

text \<open>
  \<open>children n\<close> lists the arguments of the recursive calls of the case of \<open>n\<close>, in the
  order of the calls: a guarded field only when it is not nil, a field of pointer type as
  the interface value it is converted to. A file's \<^verbatim>\<open>Comments\<close>, \<^verbatim>\<open>Imports\<close> and
  \<^verbatim>\<open>Unresolved\<close> are not among them.
\<close>

definition present :: "Node \<Rightarrow> Node list" where
  "present x = (if x \<noteq> Nil then [x] else [])"

primrec children :: "Node \<Rightarrow> Node list" where
  "children (Comment text) =
     []"
| "children (CommentGroup list) =
     map (iface KComment) (elems list)"
| "children (Field doc names type tag comment) =
     present doc @ map (iface KIdent) (elems names) @ [type] @ present tag @ present comment"
| "children (FieldList list) =
     map (iface KField) (elems list)"
| "children BadExpr =
     []"
| "children (Ident name) =
     []"
| "children (BasicLit tk val) =
     []"
| "children (Ellipsis elt) =
     present elt"
| "children (FuncLit type body) =
     [iface KFuncType type, iface KBlockStmt body]"
| "children (CompositeLit type elts) =
     present type @ elems elts"
| "children (ParenExpr x) =
     [x]"
| "children (SelectorExpr x sel) =
     [x, iface KIdent sel]"
| "children (IndexExpr x index) =
     [x, index]"
| "children (SliceExpr x low high mx slice3) =
     [x] @ present low @ present high @ present mx"
| "children (TypeAssertExpr x type) =
     [x] @ present type"
| "children (CallExpr fn args) =
     [fn] @ elems args"
| "children (StarExpr x) =
     [x]"
| "children (UnaryExpr op x) =
     [x]"
| "children (BinaryExpr x op y) =
     [x, y]"
| "children (KeyValueExpr key val) =
     [key, val]"
| "children (ArrayType len elt) =
     present len @ [elt]"
| "children (StructType flds incomplete) =
     [iface KFieldList flds]"
| "children (FuncType params results) =
     present params @ present results"
| "children (InterfaceType methods incomplete) =
     [iface KFieldList methods]"
| "children (MapType key val) =
     [key, val]"
| "children (ChanType dir val) =
     [val]"
| "children BadStmt =
     []"
| "children (DeclStmt decl) =
     [decl]"
| "children (EmptyStmt implicit) =
     []"
| "children (LabeledStmt label stmt) =
     [iface KIdent label, stmt]"
| "children (ExprStmt x) =
     [x]"
| "children (SendStmt chan val) =
     [chan, val]"
| "children (IncDecStmt x tok) =
     [x]"
| "children (AssignStmt lhs tok rhs) =
     elems lhs @ elems rhs"
| "children (GoStmt call) =
     [iface KCallExpr call]"
| "children (DeferStmt call) =
     [iface KCallExpr call]"
| "children (ReturnStmt results) =
     elems results"
| "children (BranchStmt tok label) =
     present label"
| "children (BlockStmt list) =
     elems list"
| "children (IfStmt init cond body els) =
     present init @ [cond, iface KBlockStmt body] @ present els"
| "children (CaseClause list body) =
     elems list @ elems body"
| "children (SwitchStmt init tag body) =
     present init @ present tag @ [iface KBlockStmt body]"
| "children (TypeSwitchStmt init assign body) =
     present init @ [assign, iface KBlockStmt body]"
| "children (CommClause comm body) =
     present comm @ elems body"
| "children (SelectStmt body) =
     [iface KBlockStmt body]"
| "children (ForStmt init cond post body) =
     present init @ present cond @ present post @ [iface KBlockStmt body]"
| "children (RangeStmt key val tok x body) =
     present key @ present val @ [x, iface KBlockStmt body]"
| "children (ImportSpec doc name path comment) =
     present doc @ present name @ [iface KBasicLit path] @ present comment"
| "children (ValueSpec doc names type vals comment) =
     present doc @ map (iface KIdent) (elems names) @ present type @ elems vals @ present comment"
| "children (TypeSpec doc name type comment) =
     present doc @ [iface KIdent name, type] @ present comment"
| "children BadDecl =
     []"
| "children (GenDecl doc tok specs) =
     present doc @ elems specs"
| "children (FuncDecl doc recv name type body) =
     present doc @ present recv @ [iface KIdent name, iface KFuncType type] @ present body"
| "children (File doc name decls imports unresolved comments) =
     present doc @ [iface KIdent name] @ elems decls"
| "children (Package name files) =
     map (\<lambda>lf. iface KFile (snd lf)) (elems files)"
| "children (NilPtr k) = []"
| "children Nil = []"
| "children (Other t) = []"

lemma size_elems_mem: "x \<in> set (elems list) \<Longrightarrow> size x < size_option (size_list size) list"
  by (cases list) (auto simp: elems_def less_Suc_eq_le size_list_estimation')

lemma size_files_mem:
  assumes "(a, c) \<in> set (elems fs)"
  shows "size c < size_option (size_list (size_prod (\<lambda>x. 0) size)) fs"
proof (cases fs)
  case None
  with assms show ?thesis by (simp add: elems_def)
next
  case (Some xs)
  have "(a, c) \<in> set ys \<Longrightarrow> size c < size_list (size_prod (\<lambda>x. 0) size) ys" for ys
    by (induction ys) fastforce+
  with Some assms show ?thesis by (fastforce simp: elems_def)
qed

lemma children_size: "c \<in> set (children n) \<Longrightarrow> size c < size n"
  by (cases n) (auto simp: present_def iface_def dest: size_elems_mem size_files_mem split: if_splits)

subsection \<open>The switch respects a relation between inspector states\<close>

text \<open>
  Two computations are related when, from related states, they end with the same outcome
  in related states. The switch maps recursive calls that are related on the children of
  the node to related computations; with equality as the relation this is the congruence
  rule that the definition of \<open>Inspect\<close> needs.
\<close>

definition relM :: "('e inspectorImpl \<Rightarrow> 'f inspectorImpl \<Rightarrow> bool) \<Rightarrow> ('a, 'e) M \<Rightarrow> ('a, 'f) M \<Rightarrow> bool" where
  "relM R m m' = (\<forall>s s'. R s s' \<longrightarrow> fst (m s) = fst (m' s') \<and> R (snd (m s)) (snd (m' s')))"

lemma relM_returnM: "relM R (returnM a) (returnM a)"
  by (simp add: relM_def returnM_def)

lemma relM_panicM: "relM R (panicM p) (panicM p)"
  by (simp add: relM_def panicM_def)

lemma relM_bindM:
  assumes "relM R m m'" and "\<And>a. relM R (f a) (f' a)"
  shows "relM R (bindM m f) (bindM m' f')"
  unfolding relM_def
proof (intro allI impI)
  fix s s' assume "R s s'"
  with assms(1) have 1: "fst (m s) = fst (m' s')" and 2: "R (snd (m s)) (snd (m' s'))"
    by (auto simp: relM_def)
  obtain r t where ms: "m s = (r, t)" by (cases "m s")
  obtain r' t' where ms': "m' s' = (r', t')" by (cases "m' s'")
  from 1 2 ms ms' have "r' = r" "R t t'" by auto
  with assms(2) ms ms' show "fst (bindM m f s) = fst (bindM m' f' s') \<and> R (snd (bindM m f s)) (snd (bindM m' f' s'))"
    by (cases r) (auto simp: bindM_def relM_def)
qed

lemma relM_assertIface: "relM R (assertIface impl x) (assertIface impl x)"
  by (simp add: assertIface_def relM_returnM relM_panicM split: option.split)

lemma relM_assertPtr: "relM R (assertPtr k x) (assertPtr k x)"
  by (simp add: assertPtr_def relM_returnM relM_panicM split: option.split)

lemma relM_inspectExpr: "relM R (rec x) (rec' x) \<Longrightarrow> relM R (inspectExpr rec x) (inspectExpr rec' x)"
  by (simp add: inspectExpr_def relM_bindM relM_assertIface)

lemma relM_inspectStmt: "relM R (rec x) (rec' x) \<Longrightarrow> relM R (inspectStmt rec x) (inspectStmt rec' x)"
  by (simp add: inspectStmt_def relM_bindM relM_assertIface)

lemma relM_inspectDecl: "relM R (rec x) (rec' x) \<Longrightarrow> relM R (inspectDecl rec x) (inspectDecl rec' x)"
  by (simp add: inspectDecl_def relM_bindM relM_assertIface)

lemma relM_inspectSpec: "relM R (rec x) (rec' x) \<Longrightarrow> relM R (inspectSpec rec x) (inspectSpec rec' x)"
  by (simp add: inspectSpec_def relM_bindM relM_assertIface)

lemma relM_inspectPtr:
  "relM R (rec (iface k x)) (rec' (iface k x)) \<Longrightarrow> relM R (inspectPtr k rec x) (inspectPtr k rec' x)"
  by (simp add: inspectPtr_def relM_bindM relM_assertPtr)

lemma relM_ifPresent:
  "(x \<noteq> Nil \<Longrightarrow> relM R m m') \<Longrightarrow> relM R (ifPresent x m) (ifPresent x m')"
  by (simp add: ifPresent_def relM_returnM)

lemma relM_rangeList:
  "(\<And>x. x \<in> set xs \<Longrightarrow> relM R (f x) (g x)) \<Longrightarrow> relM R (rangeList f xs) (rangeList g xs)"
  by (induction xs) (auto intro!: relM_bindM relM_returnM)

lemma relM_rangeInPlace:
  "(\<And>x. x \<in> set (elems list) \<Longrightarrow> relM R (f x) (g x)) \<Longrightarrow>
   relM R (rangeInPlace f list) (rangeInPlace g list)"
  by (cases list) (auto simp: rangeInPlace_def elems_def intro!: relM_bindM relM_rangeList relM_returnM)

lemma relM_inspectFile:
  "relM R (rec (iface KFile (snd lf))) (rec' (iface KFile (snd lf)))
   \<Longrightarrow> relM R (inspectFile rec lf) (inspectFile rec' lf)"
  by (simp add: inspectFile_def relM_bindM relM_inspectPtr relM_returnM)

lemmas relM_intros = relM_returnM relM_panicM relM_bindM relM_inspectExpr relM_inspectStmt
  relM_inspectDecl relM_inspectSpec relM_inspectPtr relM_ifPresent relM_rangeList relM_rangeInPlace
  relM_inspectFile

lemmas list_helper_defs = inspectIdentList_def inspectExprList_def inspectStmtList_def
  inspectDeclList_def

lemma relM_inspectChildren:
  assumes H: "\<And>c. c \<in> set (children n) \<Longrightarrow> relM R (rec c) (rec' c)"
  shows "relM R (inspectChildren rec n) (inspectChildren rec' n)"
  using H
  by (cases n; simp only: inspectChildren.simps list_helper_defs;
      (intro relM_intros)?; (simp add: present_def iface_def relM_intros; fail)?)

lemma relM_eq: "relM (=) m m' \<Longrightarrow> m = m'"
  by (auto simp: relM_def intro!: ext prod_eqI)

lemma inspectChildren_cong [fundef_cong]:
  assumes "n = m" and "\<And>c. c \<in> set (children m) \<Longrightarrow> f c = g c"
  shows "inspectChildren f n = inspectChildren g m"
proof -
  have "relM (=) (inspectChildren f m) (inspectChildren g m)"
    by (rule relM_inspectChildren) (simp add: assms(2) relM_def)
  with assms(1) show ?thesis by (simp add: relM_eq)
qed

section \<open>The two engines\<close>

text \<open>
  The inspector whose \<^verbatim>\<open>Visit\<close> returns the continuation only, and the function
  \<^verbatim>\<open>Inspect(i Inspector, node ast.Node)\<close> of walk.go that uses it. \<open>True\<close> is the returned
  inspector, \<open>False\<close> is nil.
\<close>

definition Visit :: "'e Visitor \<Rightarrow> Node \<Rightarrow> (bool, 'e) M" where
  "Visit v n = (\<lambda>i. case v (i\<lparr>node := n\<rparr>) n of (recurse, i') \<Rightarrow> (Ok recurse, i'))"

function Inspect :: "'e Visitor \<Rightarrow> Node \<Rightarrow> (Node, 'e) M" where
  "Inspect v n =
     bindM (Visit v n) (\<lambda>i.
       if \<not> i then returnM n
       else bindM (inspectChildren (Inspect v) n) (\<lambda>n'.
            bindM (Visit v Nil) (\<lambda>_.
            returnM n')))"
  by pat_completeness auto
termination
  by (relation "measure (\<lambda>(v, n). size n)") (auto simp: children_size)

declare Inspect.simps [simp del]

text \<open>
  The inspector whose \<^verbatim>\<open>Visit\<close> returns the replacement and the continuation, and its
  method \<^verbatim>\<open>Inspect\<close>. The switch runs on the replacement, which the visitor chooses, so
  the recursion need not end: \<open>fuel\<close> bounds the depth of the calls, and a run that needs
  more ends with \<open>OutOfFuel\<close>. The list helpers of this file are the ones above, with the
  method as the recursive call.
\<close>

definition VisitRepl :: "'e Visitor \<Rightarrow> Node \<Rightarrow> (Node \<times> bool, 'e) M" where
  "VisitRepl v n = (\<lambda>i. case v (i\<lparr>node := n\<rparr>) n of
       (result, i') \<Rightarrow> (Ok (node i', result), i'\<lparr>node := Nil\<rparr>))"

primrec InspectRepl :: "nat \<Rightarrow> 'e Visitor \<Rightarrow> Node \<Rightarrow> (Node, 'e) M" where
  "InspectRepl 0 v n = outOfFuel"
| "InspectRepl (Suc fuel) v n =
     bindM (VisitRepl v n) (\<lambda>r.
       if \<not> snd r then returnM (fst r)
       else bindM (inspectChildren (InspectRepl fuel v) (fst r)) (\<lambda>n'.
            bindM (VisitRepl v Nil) (\<lambda>_.
            returnM n')))"

section \<open>Well-formed trees, document order and the calls a visitor receives\<close>

text \<open>
  The definitions of this section state the properties; they are not part of the engine.

  \<open>slotsOk n\<close> says that the fields of \<open>n\<close> hold what their Go types allow and what the
  switch expects: a field that the switch passes on without a nil check holds an allocated
  node of the field's type, a guarded field holds nil or such a node, a list holds such
  nodes. \<open>wellFormed n\<close> says so of every node below \<open>n\<close>, and that \<open>n\<close> itself is an
  allocated node of one of the types of the switch.
\<close>

definition isA :: "(kind \<Rightarrow> bool) \<Rightarrow> Node \<Rightarrow> bool" where
  "isA P x = (case dynType x of None \<Rightarrow> False | Some k \<Rightarrow> P k \<and> x \<noteq> NilPtr k)"

definition isExpr :: "Node \<Rightarrow> bool" where
  "isExpr = isA implementsExpr"

definition isStmt :: "Node \<Rightarrow> bool" where
  "isStmt = isA implementsStmt"

definition isDecl :: "Node \<Rightarrow> bool" where
  "isDecl = isA implementsDecl"

definition isSpec :: "Node \<Rightarrow> bool" where
  "isSpec = isA implementsSpec"

definition isPtr :: "kind \<Rightarrow> Node \<Rightarrow> bool" where
  "isPtr k = isA (\<lambda>k'. k' = k)"

definition optional :: "(Node \<Rightarrow> bool) \<Rightarrow> Node \<Rightarrow> bool" where
  "optional P x = (x = Nil \<or> P x)"

primrec slotsOk :: "Node \<Rightarrow> bool" where
  "slotsOk (Comment text) =
     True"
| "slotsOk (CommentGroup list) =
     (list_all (isPtr KComment) (elems list))"
| "slotsOk (Field doc names type tag comment) =
     (optional (isPtr KCommentGroup) doc \<and> list_all (isPtr KIdent) (elems names) \<and>
      isExpr type \<and> optional (isPtr KBasicLit) tag \<and>
      optional (isPtr KCommentGroup) comment)"
| "slotsOk (FieldList list) =
     (list_all (isPtr KField) (elems list))"
| "slotsOk BadExpr =
     True"
| "slotsOk (Ident name) =
     True"
| "slotsOk (BasicLit tk val) =
     True"
| "slotsOk (Ellipsis elt) =
     (optional isExpr elt)"
| "slotsOk (FuncLit type body) =
     (isPtr KFuncType type \<and> isPtr KBlockStmt body)"
| "slotsOk (CompositeLit type elts) =
     (optional isExpr type \<and> list_all isExpr (elems elts))"
| "slotsOk (ParenExpr x) =
     (isExpr x)"
| "slotsOk (SelectorExpr x sel) =
     (isExpr x \<and> isPtr KIdent sel)"
| "slotsOk (IndexExpr x index) =
     (isExpr x \<and> isExpr index)"
| "slotsOk (SliceExpr x low high mx slice3) =
     (isExpr x \<and> optional isExpr low \<and> optional isExpr high \<and>
      optional isExpr mx)"
| "slotsOk (TypeAssertExpr x type) =
     (isExpr x \<and> optional isExpr type)"
| "slotsOk (CallExpr fn args) =
     (isExpr fn \<and> list_all isExpr (elems args))"
| "slotsOk (StarExpr x) =
     (isExpr x)"
| "slotsOk (UnaryExpr op x) =
     (isExpr x)"
| "slotsOk (BinaryExpr x op y) =
     (isExpr x \<and> isExpr y)"
| "slotsOk (KeyValueExpr key val) =
     (isExpr key \<and> isExpr val)"
| "slotsOk (ArrayType len elt) =
     (optional isExpr len \<and> isExpr elt)"
| "slotsOk (StructType flds incomplete) =
     (isPtr KFieldList flds)"
| "slotsOk (FuncType params results) =
     (optional (isPtr KFieldList) params \<and> optional (isPtr KFieldList) results)"
| "slotsOk (InterfaceType methods incomplete) =
     (isPtr KFieldList methods)"
| "slotsOk (MapType key val) =
     (isExpr key \<and> isExpr val)"
| "slotsOk (ChanType dir val) =
     (isExpr val)"
| "slotsOk BadStmt =
     True"
| "slotsOk (DeclStmt decl) =
     (isDecl decl)"
| "slotsOk (EmptyStmt implicit) =
     True"
| "slotsOk (LabeledStmt label stmt) =
     (isPtr KIdent label \<and> isStmt stmt)"
| "slotsOk (ExprStmt x) =
     (isExpr x)"
| "slotsOk (SendStmt chan val) =
     (isExpr chan \<and> isExpr val)"
| "slotsOk (IncDecStmt x tok) =
     (isExpr x)"
| "slotsOk (AssignStmt lhs tok rhs) =
     (list_all isExpr (elems lhs) \<and> list_all isExpr (elems rhs))"
| "slotsOk (GoStmt call) =
     (isPtr KCallExpr call)"
| "slotsOk (DeferStmt call) =
     (isPtr KCallExpr call)"
| "slotsOk (ReturnStmt results) =
     (list_all isExpr (elems results))"
| "slotsOk (BranchStmt tok label) =
     (optional (isPtr KIdent) label)"
| "slotsOk (BlockStmt list) =
     (list_all isStmt (elems list))"
| "slotsOk (IfStmt init cond body els) =
     (optional isStmt init \<and> isExpr cond \<and> isPtr KBlockStmt body \<and>
      optional isStmt els)"
| "slotsOk (CaseClause list body) =
     (list_all isExpr (elems list) \<and> list_all isStmt (elems body))"
| "slotsOk (SwitchStmt init tag body) =
     (optional isStmt init \<and> optional isExpr tag \<and> isPtr KBlockStmt body)"
| "slotsOk (TypeSwitchStmt init assign body) =
     (optional isStmt init \<and> isStmt assign \<and> isPtr KBlockStmt body)"
| "slotsOk (CommClause comm body) =
     (optional isStmt comm \<and> list_all isStmt (elems body))"
| "slotsOk (SelectStmt body) =
     (isPtr KBlockStmt body)"
| "slotsOk (ForStmt init cond post body) =
     (optional isStmt init \<and> optional isExpr cond \<and> optional isStmt post \<and>
      isPtr KBlockStmt body)"
| "slotsOk (RangeStmt key val tok x body) =
     (optional isExpr key \<and> optional isExpr val \<and> isExpr x \<and>
      isPtr KBlockStmt body)"
| "slotsOk (ImportSpec doc name path comment) =
     (optional (isPtr KCommentGroup) doc \<and> optional (isPtr KIdent) name \<and>
      isPtr KBasicLit path \<and> optional (isPtr KCommentGroup) comment)"
| "slotsOk (ValueSpec doc names type vals comment) =
     (optional (isPtr KCommentGroup) doc \<and> list_all (isPtr KIdent) (elems names) \<and>
      optional isExpr type \<and> list_all isExpr (elems vals) \<and>
      optional (isPtr KCommentGroup) comment)"
| "slotsOk (TypeSpec doc name type comment) =
     (optional (isPtr KCommentGroup) doc \<and> isPtr KIdent name \<and> isExpr type \<and>
      optional (isPtr KCommentGroup) comment)"
| "slotsOk BadDecl =
     True"
| "slotsOk (GenDecl doc tok specs) =
     (optional (isPtr KCommentGroup) doc \<and> list_all isSpec (elems specs))"
| "slotsOk (FuncDecl doc recv name type body) =
     (optional (isPtr KCommentGroup) doc \<and> optional (isPtr KFieldList) recv \<and>
      isPtr KIdent name \<and> isPtr KFuncType type \<and> optional (isPtr KBlockStmt) body)"
| "slotsOk (File doc name decls imports unresolved comments) =
     (optional (isPtr KCommentGroup) doc \<and> isPtr KIdent name \<and>
      list_all isDecl (elems decls))"
| "slotsOk (Package name files) =
     (list_all (\<lambda>lf. isPtr KFile (snd lf)) (elems files))"
| "slotsOk (NilPtr k) = False"
| "slotsOk Nil = False"
| "slotsOk (Other t) = False"

function wellFormed :: "Node \<Rightarrow> bool" where
  "wellFormed n = (slotsOk n \<and> list_all wellFormed (children n))"
  by pat_completeness auto
termination
  by (relation "measure size") (auto simp: children_size)

declare wellFormed.simps [simp del]

text \<open>
  \<open>preorder n\<close> is the document order of the nodes reachable from \<open>n\<close> through the child
  fields: the node, then the nodes below each child, the children from left to right.
\<close>

function preorder :: "Node \<Rightarrow> Node list" where
  "preorder n = n # concat (map preorder (children n))"
  by pat_completeness auto
termination
  by (relation "measure size") (auto simp: children_size)

declare preorder.simps [simp del]

text \<open>
  \<open>emptied n\<close> is the tree \<open>n\<close> with every nil slice that a list helper walks, in \<open>n\<close> and
  below, replaced by the empty slice; nothing else is changed (the identity map on the
  three lists of a file that the switch does not walk leaves them as they are). A tree
  has no such nil slice exactly when \<open>emptied\<close> leaves it as it is. For a slice \<open>l\<close>,
  \<open>Some (elems l)\<close> is \<open>l\<close> when \<open>l\<close> is not nil and the empty slice when it is.
\<close>

primrec emptied :: "Node \<Rightarrow> Node" where
  "emptied (Comment text) =
     Comment text"
| "emptied (CommentGroup list) =
     CommentGroup (map_option (map emptied) list)"
| "emptied (Field doc names type tag comment) =
     Field (emptied doc) (Some (elems (map_option (map emptied) names))) (emptied type)
       (emptied tag) (emptied comment)"
| "emptied (FieldList list) =
     FieldList (map_option (map emptied) list)"
| "emptied BadExpr =
     BadExpr"
| "emptied (Ident name) =
     Ident name"
| "emptied (BasicLit tk val) =
     BasicLit tk val"
| "emptied (Ellipsis elt) =
     Ellipsis (emptied elt)"
| "emptied (FuncLit type body) =
     FuncLit (emptied type) (emptied body)"
| "emptied (CompositeLit type elts) =
     CompositeLit (emptied type) (Some (elems (map_option (map emptied) elts)))"
| "emptied (ParenExpr x) =
     ParenExpr (emptied x)"
| "emptied (SelectorExpr x sel) =
     SelectorExpr (emptied x) (emptied sel)"
| "emptied (IndexExpr x index) =
     IndexExpr (emptied x) (emptied index)"
| "emptied (SliceExpr x low high mx slice3) =
     SliceExpr (emptied x) (emptied low) (emptied high) (emptied mx) slice3"
| "emptied (TypeAssertExpr x type) =
     TypeAssertExpr (emptied x) (emptied type)"
| "emptied (CallExpr fn args) =
     CallExpr (emptied fn) (Some (elems (map_option (map emptied) args)))"
| "emptied (StarExpr x) =
     StarExpr (emptied x)"
| "emptied (UnaryExpr op x) =
     UnaryExpr op (emptied x)"
| "emptied (BinaryExpr x op y) =
     BinaryExpr (emptied x) op (emptied y)"
| "emptied (KeyValueExpr key val) =
     KeyValueExpr (emptied key) (emptied val)"
| "emptied (ArrayType len elt) =
     ArrayType (emptied len) (emptied elt)"
| "emptied (StructType flds incomplete) =
     StructType (emptied flds) incomplete"
| "emptied (FuncType params results) =
     FuncType (emptied params) (emptied results)"
| "emptied (InterfaceType methods incomplete) =
     InterfaceType (emptied methods) incomplete"
| "emptied (MapType key val) =
     MapType (emptied key) (emptied val)"
| "emptied (ChanType dir val) =
     ChanType dir (emptied val)"
| "emptied BadStmt =
     BadStmt"
| "emptied (DeclStmt decl) =
     DeclStmt (emptied decl)"
| "emptied (EmptyStmt implicit) =
     EmptyStmt implicit"
| "emptied (LabeledStmt label stmt) =
     LabeledStmt (emptied label) (emptied stmt)"
| "emptied (ExprStmt x) =
     ExprStmt (emptied x)"
| "emptied (SendStmt chan val) =
     SendStmt (emptied chan) (emptied val)"
| "emptied (IncDecStmt x tok) =
     IncDecStmt (emptied x) tok"
| "emptied (AssignStmt lhs tok rhs) =
     AssignStmt (Some (elems (map_option (map emptied) lhs))) tok
       (Some (elems (map_option (map emptied) rhs)))"
| "emptied (GoStmt call) =
     GoStmt (emptied call)"
| "emptied (DeferStmt call) =
     DeferStmt (emptied call)"
| "emptied (ReturnStmt results) =
     ReturnStmt (Some (elems (map_option (map emptied) results)))"
| "emptied (BranchStmt tok label) =
     BranchStmt tok (emptied label)"
| "emptied (BlockStmt list) =
     BlockStmt (Some (elems (map_option (map emptied) list)))"
| "emptied (IfStmt init cond body els) =
     IfStmt (emptied init) (emptied cond) (emptied body) (emptied els)"
| "emptied (CaseClause list body) =
     CaseClause (Some (elems (map_option (map emptied) list)))
       (Some (elems (map_option (map emptied) body)))"
| "emptied (SwitchStmt init tag body) =
     SwitchStmt (emptied init) (emptied tag) (emptied body)"
| "emptied (TypeSwitchStmt init assign body) =
     TypeSwitchStmt (emptied init) (emptied assign) (emptied body)"
| "emptied (CommClause comm body) =
     CommClause (emptied comm) (Some (elems (map_option (map emptied) body)))"
| "emptied (SelectStmt body) =
     SelectStmt (emptied body)"
| "emptied (ForStmt init cond post body) =
     ForStmt (emptied init) (emptied cond) (emptied post) (emptied body)"
| "emptied (RangeStmt key val tok x body) =
     RangeStmt (emptied key) (emptied val) tok (emptied x) (emptied body)"
| "emptied (ImportSpec doc name path comment) =
     ImportSpec (emptied doc) (emptied name) (emptied path) (emptied comment)"
| "emptied (ValueSpec doc names type vals comment) =
     ValueSpec (emptied doc) (Some (elems (map_option (map emptied) names)))
       (emptied type) (Some (elems (map_option (map emptied) vals)))
       (emptied comment)"
| "emptied (TypeSpec doc name type comment) =
     TypeSpec (emptied doc) (emptied name) (emptied type) (emptied comment)"
| "emptied BadDecl =
     BadDecl"
| "emptied (GenDecl doc tok specs) =
     GenDecl (emptied doc) tok (map_option (map emptied) specs)"
| "emptied (FuncDecl doc recv name type body) =
     FuncDecl (emptied doc) (emptied recv) (emptied name) (emptied type) (emptied body)"
| "emptied (File doc name decls imports unresolved comments) =
     File (emptied doc) (emptied name) (Some (elems (map_option (map emptied) decls)))
       (map_option (map (\<lambda>x. x)) imports)
       (map_option (map (\<lambda>x. x)) unresolved)
       (map_option (map (\<lambda>x. x)) comments)"
| "emptied (Package name files) =
     Package name (map_option (map (map_prod (\<lambda>l. l) emptied)) files)"
| "emptied (NilPtr k) = NilPtr k"
| "emptied Nil = Nil"
| "emptied (Other t) = Other t"

definition noNilList :: "Node \<Rightarrow> bool" where
  "noNilList n = (emptied n = n)"

text \<open>
  \<open>recording v\<close> is the visitor \<open>v\<close> with a log: it does what \<open>v\<close> does and appends to the
  log the node argument of the call and the decision \<open>v\<close> returned. \<open>erase\<close> forgets the
  log. \<open>newCalls s s'\<close> are the calls logged between the states \<open>s\<close> and \<open>s'\<close>.
\<close>

type_synonym call = "Node \<times> bool"

definition erase :: "('e \<times> call list) inspectorImpl \<Rightarrow> 'e inspectorImpl" where
  "erase i = \<lparr>node = node i, env = fst (env i)\<rparr>"

definition recording :: "'e Visitor \<Rightarrow> ('e \<times> call list) Visitor" where
  "recording v i n = (case v (erase i) n of
       (r, i') \<Rightarrow> (r, \<lparr>node = node i', env = (env i', snd (env i) @ [(n, r)])\<rparr>))"

definition calls :: "('e \<times> call list) inspectorImpl \<Rightarrow> call list" where
  "calls i = snd (env i)"

definition newCalls :: "('e \<times> call list) inspectorImpl \<Rightarrow> ('e \<times> call list) inspectorImpl \<Rightarrow> call list" where
  "newCalls s s' = drop (length (calls s)) (calls s')"

text \<open>
  \<open>consume n cs\<close> reads from the front of \<open>cs\<close> the calls of one complete visit of \<open>n\<close> and
  returns the rest: a call for \<open>n\<close> that returned stop and nothing more; or a call for \<open>n\<close>
  that returned continue, then the complete visits of the children of \<open>n\<close> in order, then
  one call with the nil node. It returns \<open>None\<close> when \<open>cs\<close> does not start so.
\<close>

function consume :: "Node \<Rightarrow> call list \<Rightarrow> call list option" where
  "consume n cs = (case cs of
       [] \<Rightarrow> None
     | c # cs' \<Rightarrow>
         if fst c \<noteq> n then None
         else if \<not> snd c then Some cs'
         else (case fold (\<lambda>ch acc. Option.bind acc (consume ch)) (children n) (Some cs') of
                 None \<Rightarrow> None
               | Some [] \<Rightarrow> None
               | Some (c' # rest) \<Rightarrow> if fst c' = Nil then Some rest else None))"
  by pat_completeness auto
termination
  by (relation "measure (\<lambda>(n, cs). size n)") (auto simp: children_size)

declare consume.simps [simp del]

definition alwaysContinue :: "'e Visitor \<Rightarrow> bool" where
  "alwaysContinue v = (\<forall>i n. fst (v i n))"


section \<open>On a well-formed tree the switch makes its calls in order and returns\<close>

text \<open>
  \<open>runAll rec cs s\<close> is the state after the recursive calls on the nodes \<open>cs\<close>, one after
  the other, from the state \<open>s\<close>. \<open>yields rec cs m Q\<close> says that the computation \<open>m\<close> returns,
  that the value it returns satisfies \<open>Q\<close>, and that it leaves the state that these calls
  leave.

  \<open>agree exact f a b\<close> compares a result \<open>a\<close> with the input \<open>b\<close> it was computed from: when
  \<open>exact\<close> holds, \<open>a\<close> is \<open>f b\<close>; otherwise \<open>a\<close> and \<open>b\<close> have the same image under \<open>f\<close>. With
  \<open>emptied\<close> for \<open>f\<close> the first says that the result is the input with its nil slices
  emptied, the second that the result is the input but for nil and empty slices.
  \<open>okRec exact rec\<close> says that the recursive call returns such a result for every node.
  When it does so on the children of a node whose fields are as \<open>slotsOk\<close> requires, the
  case of the node makes the recursive calls on its children in order, every type
  assertion holds, and the node returned is such a result for the node given.
\<close>

definition runAll :: "(Node \<Rightarrow> (Node, 'e) M) \<Rightarrow> Node list \<Rightarrow> 'e inspectorImpl \<Rightarrow> 'e inspectorImpl" where
  "runAll rec cs s = fold (\<lambda>c t. snd (rec c t)) cs s"

definition yields :: "(Node \<Rightarrow> (Node, 'e) M) \<Rightarrow> Node list \<Rightarrow> ('a, 'e) M \<Rightarrow> ('a \<Rightarrow> bool) \<Rightarrow> bool" where
  "yields rec cs m Q = (\<forall>s. \<exists>a. m s = (Ok a, runAll rec cs s) \<and> Q a)"

definition agree :: "bool \<Rightarrow> ('a \<Rightarrow> 'a) \<Rightarrow> 'a \<Rightarrow> 'a \<Rightarrow> bool" where
  "agree exact f a b = (if exact then a = f b else f a = f b)"

definition okRec :: "bool \<Rightarrow> (Node \<Rightarrow> (Node, 'e) M) \<Rightarrow> bool" where
  "okRec exact rec = (\<forall>c s. \<exists>r. fst (rec c s) = Ok r \<and> agree exact emptied r c)"

lemma runAll_Nil: "runAll rec [] s = s"
  by (simp add: runAll_def)

lemma runAll_Cons: "runAll rec (c # cs) s = runAll rec cs (snd (rec c s))"
  by (simp add: runAll_def)

lemma runAll_append: "runAll rec (xs @ ys) s = runAll rec ys (runAll rec xs s)"
  by (simp add: runAll_def)

lemma runAll_cong: "(\<And>c. c \<in> set cs \<Longrightarrow> f c = g c) \<Longrightarrow> runAll f cs = runAll g cs"
  unfolding runAll_def by (intro ext fold_cong) auto

lemma elems_simps: "elems None = []" "elems (Some xs) = xs"
  by (simp_all add: elems_def)

lemma elems_map_option: "elems (map_option (map f) list) = map f (elems list)"
  by (cases list) (simp_all add: elems_def)

lemma not_None_elems: "list \<noteq> None \<Longrightarrow> (list = Some xs) = (elems list = xs)"
  by (cases list) (simp_all add: elems_def)

lemma dynType_emptied: "dynType (emptied x) = dynType x"
  by (cases x) simp_all

lemma emptied_NilPtr: "(emptied x = NilPtr k) = (x = NilPtr k)"
  by (cases x) auto

lemma isA_emptied: "isA P (emptied x) = isA P x"
  by (simp add: isA_def dynType_emptied emptied_NilPtr split: option.split)

lemma agree_isA: "agree exact emptied r x \<Longrightarrow> isA P x \<Longrightarrow> isA P r"
  by (cases exact) (simp add: agree_def isA_emptied, metis agree_def isA_emptied)

lemma isA_iface: "isA P x \<Longrightarrow> iface k x = x"
  by (auto simp: isA_def iface_def)

lemma isA_assertIface: "isA P x \<Longrightarrow> assertIface P x = returnM x"
  by (auto simp: isA_def assertIface_def split: option.splits)

lemma isPtr_assertPtr: "isPtr k x \<Longrightarrow> assertPtr k x = returnM x"
  by (cases x) (auto simp: isPtr_def isA_def assertPtr_def split: option.splits)

lemma y_ret: "Q a \<Longrightarrow> yields rec [] (returnM a) Q"
  by (simp add: yields_def returnM_def runAll_Nil)

lemma y_bind:
  assumes "yields rec cs m P" and "\<And>a. P a \<Longrightarrow> yields rec ds (f a) Q" and "zs = cs @ ds"
  shows "yields rec zs (bindM m f) Q"
  unfolding yields_def
proof
  fix s
  obtain a where a: "m s = (Ok a, runAll rec cs s)" "P a"
    using assms(1) by (auto simp: yields_def)
  obtain b where "f a (runAll rec cs s) = (Ok b, runAll rec ds (runAll rec cs s))" "Q b"
    using assms(2) [OF a(2)] by (auto simp: yields_def)
  then show "\<exists>b. bindM m f s = (Ok b, runAll rec zs s) \<and> Q b"
    by (simp add: bindM_def a assms(3) runAll_append)
qed

lemma y_slot:
  assumes "okRec exact rec" and "\<And>r. agree exact emptied r x \<Longrightarrow> asrt r = returnM r"
  shows "yields rec [x] (bindM (rec x) asrt) (\<lambda>a. agree exact emptied a x)"
  unfolding yields_def
proof
  fix s
  obtain r where r: "fst (rec x s) = Ok r" "agree exact emptied r x"
    using assms(1) by (auto simp: okRec_def)
  obtain t where t: "rec x s = (Ok r, t)"
    using r(1) by (cases "rec x s") simp
  show "\<exists>a. bindM (rec x) asrt s = (Ok a, runAll rec [x] s) \<and> agree exact emptied a x"
    using r(2) by (simp add: bindM_def t assms(2) returnM_def runAll_Cons runAll_Nil)
qed

lemma y_inspectExpr:
  "okRec exact rec \<Longrightarrow> isExpr x \<Longrightarrow>
   yields rec [x] (inspectExpr rec x) (\<lambda>a. agree exact emptied a x)"
  unfolding inspectExpr_def isExpr_def by (rule y_slot) (auto intro: isA_assertIface agree_isA)

lemma y_inspectStmt:
  "okRec exact rec \<Longrightarrow> isStmt x \<Longrightarrow>
   yields rec [x] (inspectStmt rec x) (\<lambda>a. agree exact emptied a x)"
  unfolding inspectStmt_def isStmt_def by (rule y_slot) (auto intro: isA_assertIface agree_isA)

lemma y_inspectDecl:
  "okRec exact rec \<Longrightarrow> isDecl x \<Longrightarrow>
   yields rec [x] (inspectDecl rec x) (\<lambda>a. agree exact emptied a x)"
  unfolding inspectDecl_def isDecl_def by (rule y_slot) (auto intro: isA_assertIface agree_isA)

lemma y_inspectSpec:
  "okRec exact rec \<Longrightarrow> isSpec x \<Longrightarrow>
   yields rec [x] (inspectSpec rec x) (\<lambda>a. agree exact emptied a x)"
  unfolding inspectSpec_def isSpec_def by (rule y_slot) (auto intro: isA_assertIface agree_isA)

lemma y_inspectPtr:
  assumes "okRec exact rec" and "isPtr k x"
  shows "yields rec [iface k x] (inspectPtr k rec x) (\<lambda>a. agree exact emptied a x)"
proof -
  have x: "iface k x = x"
    using assms(2) by (simp add: isPtr_def isA_iface)
  have "assertPtr k r = returnM r" if "agree exact emptied r x" for r
    using that assms(2) by (intro isPtr_assertPtr) (auto simp: isPtr_def intro: agree_isA)
  then show ?thesis
    unfolding inspectPtr_def x using assms(1) by (intro y_slot)
qed

lemma y_ifPresent:
  assumes "x \<noteq> Nil \<Longrightarrow> yields rec [x] m (\<lambda>a. agree exact emptied a x)"
  shows "yields rec (present x) (ifPresent x m) (\<lambda>a. agree exact emptied a x)"
  using assms by (auto simp: ifPresent_def present_def agree_def intro: y_ret)

lemma y_optExpr:
  "okRec exact rec \<Longrightarrow> optional isExpr x \<Longrightarrow>
   yields rec (present x) (ifPresent x (inspectExpr rec x)) (\<lambda>a. agree exact emptied a x)"
  by (rule y_ifPresent) (simp add: optional_def y_inspectExpr)

lemma y_optStmt:
  "okRec exact rec \<Longrightarrow> optional isStmt x \<Longrightarrow>
   yields rec (present x) (ifPresent x (inspectStmt rec x)) (\<lambda>a. agree exact emptied a x)"
  by (rule y_ifPresent) (simp add: optional_def y_inspectStmt)

lemma y_optPtr:
  assumes "okRec exact rec" and "optional (isPtr k) x"
  shows "yields rec (present x) (ifPresent x (inspectPtr k rec x)) (\<lambda>a. agree exact emptied a x)"
proof (rule y_ifPresent)
  assume "x \<noteq> Nil"
  then have x: "isPtr k x"
    using assms(2) by (simp add: optional_def)
  then have "iface k x = x"
    by (simp add: isPtr_def isA_iface)
  then show "yields rec [x] (inspectPtr k rec x) (\<lambda>a. agree exact emptied a x)"
    using y_inspectPtr [OF assms(1) x] by simp
qed

lemma y_rangeList:
  assumes "\<And>x. x \<in> set xs \<Longrightarrow> yields rec [g x] (f x) (\<lambda>a. agree exact E a x)"
  shows "yields rec (map g xs) (rangeList f xs) (\<lambda>ys. agree exact (map E) ys xs)"
  using assms
proof (induction xs)
  case Nil
  show ?case by (simp add: y_ret agree_def)
next
  case (Cons x xs)
  have tl: "yields rec (map g xs) (rangeList f xs) (\<lambda>ys. agree exact (map E) ys xs)"
    by (rule Cons.IH) (simp add: Cons.prems)
  have "yields rec ([g x] @ map g xs) (rangeList f (x # xs)) (\<lambda>ys. agree exact (map E) ys (x # xs))"
    unfolding rangeList.simps
  proof (rule y_bind [OF Cons.prems [of x]])
    fix y assume y: "agree exact E y x"
    show "yields rec (map g xs) (bindM (rangeList f xs) (\<lambda>ys. returnM (y # ys)))
            (\<lambda>ys. agree exact (map E) ys (x # xs))"
    proof (rule y_bind [OF tl])
      fix ys assume "agree exact (map E) ys xs"
      then show "yields rec [] (returnM (y # ys)) (\<lambda>ys. agree exact (map E) ys (x # xs))"
        using y by (intro y_ret) (simp add: agree_def split: if_splits)
    qed simp
  qed simp_all
  then show ?case by simp
qed

lemma y_helper:
  assumes "\<And>x. x \<in> set (elems list) \<Longrightarrow> yields rec [g x] (f x) (\<lambda>a. agree exact emptied a x)"
  shows "yields rec (map g (elems list)) (bindM (rangeList f (elems list)) (\<lambda>newList. returnM (Some newList)))
           (\<lambda>list'. list' \<noteq> None \<and> agree exact (map emptied) (elems list') (elems list))"
proof (rule y_bind [OF y_rangeList [where E = emptied and exact = exact]])
  show "yields rec [g x] (f x) (\<lambda>a. agree exact emptied a x)" if "x \<in> set (elems list)" for x
    using that by (rule assms)
  show "yields rec [] (returnM (Some newList))
          (\<lambda>list'. list' \<noteq> None \<and> agree exact (map emptied) (elems list') (elems list))"
    if "agree exact (map emptied) newList (elems list)" for newList
    using that by (intro y_ret) (simp add: elems_simps)
qed simp

lemma y_inspectExprList:
  "okRec exact rec \<Longrightarrow> list_all isExpr (elems list) \<Longrightarrow>
   yields rec (elems list) (inspectExprList rec list)
     (\<lambda>list'. list' \<noteq> None \<and> agree exact (map emptied) (elems list') (elems list))"
  using y_helper [of list rec "\<lambda>x. x" "inspectExpr rec" exact]
  by (simp add: inspectExprList_def list_all_iff y_inspectExpr)

lemma y_inspectStmtList:
  "okRec exact rec \<Longrightarrow> list_all isStmt (elems list) \<Longrightarrow>
   yields rec (elems list) (inspectStmtList rec list)
     (\<lambda>list'. list' \<noteq> None \<and> agree exact (map emptied) (elems list') (elems list))"
  using y_helper [of list rec "\<lambda>x. x" "inspectStmt rec" exact]
  by (simp add: inspectStmtList_def list_all_iff y_inspectStmt)

lemma y_inspectDeclList:
  "okRec exact rec \<Longrightarrow> list_all isDecl (elems list) \<Longrightarrow>
   yields rec (elems list) (inspectDeclList rec list)
     (\<lambda>list'. list' \<noteq> None \<and> agree exact (map emptied) (elems list') (elems list))"
  using y_helper [of list rec "\<lambda>x. x" "inspectDecl rec" exact]
  by (simp add: inspectDeclList_def list_all_iff y_inspectDecl)

lemma y_inspectIdentList:
  "okRec exact rec \<Longrightarrow> list_all (isPtr KIdent) (elems list) \<Longrightarrow>
   yields rec (map (iface KIdent) (elems list)) (inspectIdentList rec list)
     (\<lambda>list'. list' \<noteq> None \<and> agree exact (map emptied) (elems list') (elems list))"
  using y_helper [of list rec "iface KIdent" "inspectPtr KIdent rec" exact]
  by (simp add: inspectIdentList_def list_all_iff y_inspectPtr)

lemma y_rangeInPlace:
  assumes "\<And>x. x \<in> set (elems list) \<Longrightarrow> yields rec [g x] (f x) (\<lambda>a. agree exact E a x)"
  shows "yields rec (map g (elems list)) (rangeInPlace f list)
           (\<lambda>list'. agree exact (map_option (map E)) list' list)"
proof (cases list)
  case None
  then show ?thesis
    by (simp add: rangeInPlace_def elems_simps y_ret agree_def)
next
  case (Some xs)
  have "yields rec (map g xs @ []) (bindM (rangeList f xs) (\<lambda>ys. returnM (Some ys)))
          (\<lambda>list'. agree exact (map_option (map E)) list' (Some xs))"
  proof (rule y_bind [OF y_rangeList [where E = E and exact = exact]])
    show "yields rec [g x] (f x) (\<lambda>a. agree exact E a x)" if "x \<in> set xs" for x
      using that assms Some by (simp add: elems_simps)
    show "yields rec [] (returnM (Some ys)) (\<lambda>list'. agree exact (map_option (map E)) list' (Some xs))"
      if "agree exact (map E) ys xs" for ys
      using that by (intro y_ret) (simp add: agree_def split: if_splits)
  qed simp
  then show ?thesis
    using Some by (simp add: rangeInPlace_def elems_simps)
qed

lemma y_rangePtr:
  "okRec exact rec \<Longrightarrow> list_all (isPtr k) (elems list) \<Longrightarrow>
   yields rec (map (iface k) (elems list)) (rangeInPlace (inspectPtr k rec) list)
     (\<lambda>list'. agree exact (map_option (map emptied)) list' list)"
  by (rule y_rangeInPlace) (simp add: list_all_iff y_inspectPtr)

lemma y_rangeSpec:
  "okRec exact rec \<Longrightarrow> list_all isSpec (elems list) \<Longrightarrow>
   yields rec (elems list) (rangeInPlace (inspectSpec rec) list)
     (\<lambda>list'. agree exact (map_option (map emptied)) list' list)"
  using y_rangeInPlace [of list rec "\<lambda>x. x" "inspectSpec rec" exact emptied]
  by (simp add: list_all_iff y_inspectSpec)

lemma y_inspectFile:
  assumes "okRec exact rec" and "isPtr KFile (snd lf)"
  shows "yields rec [iface KFile (snd lf)] (inspectFile rec lf)
           (\<lambda>a. agree exact (map_prod (\<lambda>l. l) emptied) a lf)"
  unfolding inspectFile_def
proof (rule y_bind [OF y_inspectPtr [OF assms]])
  show "yields rec [] (returnM (fst lf, f')) (\<lambda>a. agree exact (map_prod (\<lambda>l. l) emptied) a lf)"
    if "agree exact emptied f' (snd lf)" for f'
    using that by (intro y_ret) (cases lf, simp add: agree_def split: if_splits)
qed simp

lemma y_rangeFile:
  "okRec exact rec \<Longrightarrow> list_all (\<lambda>lf. isPtr KFile (snd lf)) (elems files) \<Longrightarrow>
   yields rec (map (\<lambda>lf. iface KFile (snd lf)) (elems files)) (rangeInPlace (inspectFile rec) files)
     (\<lambda>files'. agree exact (map_option (map (map_prod (\<lambda>l. l) emptied))) files' files)"
  by (rule y_rangeInPlace) (simp add: list_all_iff y_inspectFile)

lemmas y_intros = y_bind y_ret y_inspectExpr y_inspectStmt y_inspectDecl y_inspectPtr
  y_optExpr y_optStmt y_optPtr y_inspectExprList y_inspectStmtList y_inspectDeclList
  y_inspectIdentList y_rangePtr y_rangeSpec y_rangeFile

lemma inspectChildren_okRec:
  assumes "okRec exact rec" and "slotsOk n"
  shows "yields rec (children n) (inspectChildren rec n) (\<lambda>a. agree exact emptied a n)"
  by (insert assms, cases n; simp only: inspectChildren.simps children.simps slotsOk.simps;
      (rule y_intros | assumption
        | (simp add: agree_def elems_map_option not_None_elems option.map_ident
             split: if_splits; fail))+)

lemma inspectChildren_yields:
  assumes "slotsOk n"
    and H: "\<And>c s. c \<in> set (children n) \<Longrightarrow> \<exists>r. fst (rec c s) = Ok r \<and> agree exact emptied r c"
  shows "yields rec (children n) (inspectChildren rec n) (\<lambda>a. agree exact emptied a n)"
proof -
  define rec' where
    "rec' = (\<lambda>c. if c \<in> set (children n) then rec c else returnM (if exact then emptied c else c))"
  have "okRec exact rec'"
    unfolding okRec_def
  proof (intro allI)
    fix c s
    show "\<exists>r. fst (rec' c s) = Ok r \<and> agree exact emptied r c"
      using H [of c s] by (simp add: rec'_def returnM_def agree_def)
  qed
  then have "yields rec' (children n) (inspectChildren rec' n) (\<lambda>a. agree exact emptied a n)"
    using assms(1) by (rule inspectChildren_okRec)
  moreover have "inspectChildren rec n = inspectChildren rec' n"
    by (rule inspectChildren_cong) (simp_all add: rec'_def)
  moreover have "runAll rec' (children n) = runAll rec (children n)"
    by (rule runAll_cong) (simp add: rec'_def)
  ultimately show ?thesis
    by (simp add: yields_def)
qed

subsection \<open>The function of walk.go on a well-formed tree\<close>

text \<open>
  On a well-formed tree \<open>Inspect\<close> returns, whatever the visitor does: it calls the visitor
  for the node, and when the visitor returned true it visits the children in order and
  calls the visitor with the nil node. The tree it returns is the tree it was given but
  for nil and empty slices; with a visitor that never stops, it is the tree it was given
  with its nil slices emptied.
\<close>

lemma wellFormed_children: "wellFormed n \<Longrightarrow> c \<in> set (children n) \<Longrightarrow> wellFormed c"
  by (subst (asm) wellFormed.simps) (simp add: list_all_iff)

lemma wellFormed_slotsOk: "wellFormed n \<Longrightarrow> slotsOk n"
  by (subst (asm) wellFormed.simps) simp

lemma wellFormed_not_Nil: "wellFormed n \<Longrightarrow> n \<noteq> Nil"
  by (auto dest: wellFormed_slotsOk)

lemma Inspect_agree:
  "wellFormed n \<Longrightarrow> (exact \<Longrightarrow> alwaysContinue v) \<Longrightarrow>
   \<exists>r. fst (Inspect v n s) = Ok r \<and> agree exact emptied r n"
proof (induction v n arbitrary: s rule: Inspect.induct)
  case (1 v n)
  have "\<exists>r. fst (Inspect v c t) = Ok r \<and> agree exact emptied r c" if "c \<in> set (children n)" for c t
    using "1.IH" [of True c t] that "1.prems" by (simp add: wellFormed_children)
  then have "yields (Inspect v) (children n) (inspectChildren (Inspect v) n)
      (\<lambda>a. agree exact emptied a n)"
    using "1.prems"(1) by (intro inspectChildren_yields) (simp_all add: wellFormed_slotsOk)
  then obtain a where a: "inspectChildren (Inspect v) n (snd (v (s\<lparr>node := n\<rparr>) n)) =
      (Ok a, runAll (Inspect v) (children n) (snd (v (s\<lparr>node := n\<rparr>) n)))" "agree exact emptied a n"
    unfolding yields_def by blast
  have stop: "agree exact emptied n n" if "\<not> fst (v (s\<lparr>node := n\<rparr>) n)"
    using that "1.prems"(2) by (auto simp: agree_def alwaysContinue_def)
  show ?case
    using a stop
    by (subst Inspect.simps)
       (simp add: bindM_def Visit_def returnM_def case_prod_beta)
qed

lemma Inspect_same: "wellFormed n \<Longrightarrow> \<exists>r. fst (Inspect v n s) = Ok r \<and> emptied r = emptied n"
  using Inspect_agree [of n False v s] by (simp add: agree_def)

lemma Inspect_emptied: "wellFormed n \<Longrightarrow> alwaysContinue v \<Longrightarrow> fst (Inspect v n s) = Ok (emptied n)"
  using Inspect_agree [of n True v s] by (simp add: agree_def)

lemma Inspect_unfold:
  assumes "wellFormed n"
  shows "snd (Inspect v n s) =
    (case v (s\<lparr>node := n\<rparr>) n of (r, s1) \<Rightarrow>
       if \<not> r then s1
       else snd (v ((runAll (Inspect v) (children n) s1)\<lparr>node := Nil\<rparr>) Nil))"
proof -
  have "yields (Inspect v) (children n) (inspectChildren (Inspect v) n)
      (\<lambda>a. agree False emptied a n)"
    using assms
    by (intro inspectChildren_yields)
       (simp_all add: wellFormed_slotsOk wellFormed_children Inspect_same agree_def)
  then obtain a where "inspectChildren (Inspect v) n (snd (v (s\<lparr>node := n\<rparr>) n)) =
      (Ok a, runAll (Inspect v) (children n) (snd (v (s\<lparr>node := n\<rparr>) n)))"
    unfolding yields_def by blast
  then show ?thesis
    by (subst Inspect.simps)
       (simp add: bindM_def Visit_def returnM_def case_prod_beta)
qed

section \<open>The calls of a traversal\<close>

lemma calls_node_update: "calls (s\<lparr>node := n\<rparr>) = calls s"
  by (simp add: calls_def)

lemma recording_calls: "calls (snd (recording v i n)) = calls i @ [(n, fst (recording v i n))]"
  by (simp add: recording_def calls_def split: prod.split)

lemma runAll_consume:
  assumes "\<And>c s. c \<in> set cs \<Longrightarrow>
    \<exists>L. calls (snd (rec c s)) = calls s @ L \<and> (\<forall>rest. consume c (L @ rest) = Some rest)"
  shows "\<exists>L. calls (runAll rec cs s) = calls s @ L \<and>
    (\<forall>rest. fold (\<lambda>ch acc. Option.bind acc (consume ch)) cs (Some (L @ rest)) = Some rest)"
  using assms
proof (induction cs arbitrary: s)
  case Nil
  then show ?case by (simp add: runAll_Nil)
next
  case (Cons c cs)
  obtain L1 where L1: "calls (snd (rec c s)) = calls s @ L1"
    "\<And>rest. consume c (L1 @ rest) = Some rest"
    using Cons.prems [of c s] by auto
  obtain L2 where L2: "calls (runAll rec cs (snd (rec c s))) = calls (snd (rec c s)) @ L2"
    "\<And>rest. fold (\<lambda>ch acc. Option.bind acc (consume ch)) cs (Some (L2 @ rest)) = Some rest"
    using Cons.IH [of "snd (rec c s)"] Cons.prems by auto
  show ?case
    by (rule exI [of _ "L1 @ L2"]) (simp add: runAll_Cons L1 L2)
qed

lemma Inspect_consume:
  "wellFormed n \<Longrightarrow>
   \<exists>L. calls (snd (Inspect (recording v) n s)) = calls s @ L \<and> (\<forall>rest. consume n (L @ rest) = Some rest)"
proof (induction "recording v" n arbitrary: s rule: Inspect.induct)
  case (1 n)
  let ?v = "recording v"
  obtain r s1 where v1: "?v (s\<lparr>node := n\<rparr>) n = (r, s1)" by (cases "?v (s\<lparr>node := n\<rparr>) n")
  have c1: "calls s1 = calls s @ [(n, r)]"
    using recording_calls [of v "s\<lparr>node := n\<rparr>" n] by (simp add: v1 calls_node_update)
  show ?case
  proof (cases r)
    case False
    have "calls (snd (Inspect ?v n s)) = calls s @ [(n, False)]"
      using False c1 by (simp add: Inspect_unfold [OF "1.prems"] v1)
    moreover have "consume n ([(n, False)] @ rest) = Some rest" for rest
      by (subst consume.simps) simp
    ultimately show ?thesis by blast
  next
    case True
    let ?s2 = "runAll (Inspect ?v) (children n) s1"
    obtain Lc where Lc: "calls ?s2 = calls s1 @ Lc"
      "\<And>rest. fold (\<lambda>ch acc. Option.bind acc (consume ch)) (children n) (Some (Lc @ rest)) = Some rest"
      using runAll_consume [of "children n" "Inspect ?v" s1] "1.hyps" [of True] "1.prems"
      by (auto simp: wellFormed_children)
    obtain r' s3 where v3: "?v (?s2\<lparr>node := Nil\<rparr>) Nil = (r', s3)"
      by (cases "?v (?s2\<lparr>node := Nil\<rparr>) Nil")
    have c3: "calls s3 = calls ?s2 @ [(Nil, r')]"
      using recording_calls [of v "?s2\<lparr>node := Nil\<rparr>" Nil] by (simp add: v3 calls_node_update)
    have "calls (snd (Inspect ?v n s)) = calls s @ ((n, True) # Lc @ [(Nil, r')])"
      using True c1 c3 Lc(1) by (simp add: Inspect_unfold [OF "1.prems"] v1 v3)
    moreover have "consume n (((n, True) # Lc @ [(Nil, r')]) @ rest) = Some rest" for rest
      using Lc(2) [of "(Nil, r') # rest"] by (subst consume.simps) simp
    ultimately show ?thesis by blast
  qed
qed

text \<open>
  \<open>preCalls L\<close> are the nodes of the calls of \<open>L\<close> other than the calls with the nil node,
  which on a well-formed tree are the closing calls.
\<close>

definition preCalls :: "call list \<Rightarrow> Node list" where
  "preCalls L = map fst (filter (\<lambda>c. fst c \<noteq> Nil) L)"

lemma preCalls_append: "preCalls (xs @ ys) = preCalls xs @ preCalls ys"
  by (simp add: preCalls_def)

lemma runAll_preorder:
  assumes "\<And>c s. c \<in> set cs \<Longrightarrow>
    \<exists>L. calls (snd (rec c s)) = calls s @ L \<and> preCalls L = preorder c"
  shows "\<exists>L. calls (runAll rec cs s) = calls s @ L \<and> preCalls L = concat (map preorder cs)"
  using assms
proof (induction cs arbitrary: s)
  case Nil
  then show ?case by (simp add: runAll_Nil preCalls_def)
next
  case (Cons c cs)
  obtain L1 where L1: "calls (snd (rec c s)) = calls s @ L1" "preCalls L1 = preorder c"
    using Cons.prems [of c s] by auto
  obtain L2 where L2: "calls (runAll rec cs (snd (rec c s))) = calls (snd (rec c s)) @ L2"
    "preCalls L2 = concat (map preorder cs)"
    using Cons.IH [of "snd (rec c s)"] Cons.prems by auto
  show ?case
    by (rule exI [of _ "L1 @ L2"]) (simp add: runAll_Cons L1 L2 preCalls_append)
qed

lemma alwaysContinue_recording: "alwaysContinue v \<Longrightarrow> fst (recording v i n)"
  by (simp add: alwaysContinue_def recording_def case_prod_beta)

lemma Inspect_preorder:
  assumes "alwaysContinue v"
  shows "wellFormed n \<Longrightarrow>
   \<exists>L. calls (snd (Inspect (recording v) n s)) = calls s @ L \<and> preCalls L = preorder n"
proof (induction "recording v" n arbitrary: s rule: Inspect.induct)
  case (1 n)
  let ?v = "recording v"
  obtain r s1 where v1: "?v (s\<lparr>node := n\<rparr>) n = (r, s1)" by (cases "?v (s\<lparr>node := n\<rparr>) n")
  have r: "r" using alwaysContinue_recording [OF assms, of "s\<lparr>node := n\<rparr>" n] by (simp add: v1)
  have c1: "calls s1 = calls s @ [(n, r)]"
    using recording_calls [of v "s\<lparr>node := n\<rparr>" n] by (simp add: v1 calls_node_update)
  let ?s2 = "runAll (Inspect ?v) (children n) s1"
  obtain Lc where Lc: "calls ?s2 = calls s1 @ Lc" "preCalls Lc = concat (map preorder (children n))"
    using runAll_preorder [of "children n" "Inspect ?v" s1] "1.hyps" [of True] "1.prems"
    by (auto simp: wellFormed_children)
  obtain r' s3 where v3: "?v (?s2\<lparr>node := Nil\<rparr>) Nil = (r', s3)"
    by (cases "?v (?s2\<lparr>node := Nil\<rparr>) Nil")
  have c3: "calls s3 = calls ?s2 @ [(Nil, r')]"
    using recording_calls [of v "?s2\<lparr>node := Nil\<rparr>" Nil] by (simp add: v3 calls_node_update)
  have "calls (snd (Inspect ?v n s)) = calls s @ ((n, True) # Lc @ [(Nil, r')])"
    using r c1 c3 Lc(1) by (simp add: Inspect_unfold [OF "1.prems"] v1 v3)
  moreover have "preCalls ((n, True) # Lc @ [(Nil, r')]) = preorder n"
    using wellFormed_not_Nil [OF "1.prems"] Lc(2)
    by (subst preorder.simps) (simp add: preCalls_def)
  ultimately show ?case by blast
qed

section \<open>Where the panic of the default branch comes from\<close>

text \<open>
  \<open>noUnexpected m\<close> says that the computation \<open>m\<close> never ends with the panic of the default
  branch. The case of a node of a type of the switch ends with it only when a recursive
  call on a child does: the panics of the case itself are failed type assertions and
  reads through a nil pointer.
\<close>

definition noUnexpected :: "('a, 'e) M \<Rightarrow> bool" where
  "noUnexpected m = (\<forall>s. fst (m s) \<noteq> Panic UnexpectedNodeType)"

lemma nu_returnM: "noUnexpected (returnM a)"
  by (simp add: noUnexpected_def returnM_def)

lemma nu_panicM: "p \<noteq> UnexpectedNodeType \<Longrightarrow> noUnexpected (panicM p)"
  by (simp add: noUnexpected_def panicM_def)

lemma nu_bindM: "noUnexpected m \<Longrightarrow> (\<And>a. noUnexpected (f a)) \<Longrightarrow> noUnexpected (bindM m f)"
  unfolding noUnexpected_def bindM_def
  by (auto split: prod.split outcome.split) (metis fst_conv)

lemma nu_assertIface: "noUnexpected (assertIface impl x)"
  by (simp add: assertIface_def nu_returnM nu_panicM split: option.split)

lemma nu_assertPtr: "noUnexpected (assertPtr k x)"
  by (simp add: assertPtr_def nu_returnM nu_panicM split: option.split)

lemma nu_inspectExpr: "noUnexpected (rec x) \<Longrightarrow> noUnexpected (inspectExpr rec x)"
  by (simp add: inspectExpr_def nu_bindM nu_assertIface)

lemma nu_inspectStmt: "noUnexpected (rec x) \<Longrightarrow> noUnexpected (inspectStmt rec x)"
  by (simp add: inspectStmt_def nu_bindM nu_assertIface)

lemma nu_inspectDecl: "noUnexpected (rec x) \<Longrightarrow> noUnexpected (inspectDecl rec x)"
  by (simp add: inspectDecl_def nu_bindM nu_assertIface)

lemma nu_inspectSpec: "noUnexpected (rec x) \<Longrightarrow> noUnexpected (inspectSpec rec x)"
  by (simp add: inspectSpec_def nu_bindM nu_assertIface)

lemma nu_inspectPtr: "noUnexpected (rec (iface k x)) \<Longrightarrow> noUnexpected (inspectPtr k rec x)"
  by (simp add: inspectPtr_def nu_bindM nu_assertPtr)

lemma nu_ifPresent: "(x \<noteq> Nil \<Longrightarrow> noUnexpected m) \<Longrightarrow> noUnexpected (ifPresent x m)"
  by (simp add: ifPresent_def nu_returnM)

lemma nu_rangeList: "(\<And>x. x \<in> set xs \<Longrightarrow> noUnexpected (f x)) \<Longrightarrow> noUnexpected (rangeList f xs)"
  by (induction xs) (auto intro!: nu_bindM nu_returnM)

lemma nu_rangeInPlace:
  "(\<And>x. x \<in> set (elems list) \<Longrightarrow> noUnexpected (f x)) \<Longrightarrow> noUnexpected (rangeInPlace f list)"
  by (cases list) (simp_all add: rangeInPlace_def elems_def nu_bindM nu_rangeList nu_returnM)

lemma nu_inspectFile: "noUnexpected (rec (iface KFile (snd lf))) \<Longrightarrow> noUnexpected (inspectFile rec lf)"
  by (simp add: inspectFile_def nu_bindM nu_inspectPtr nu_returnM)

lemmas nu_intros = nu_returnM nu_bindM nu_inspectExpr nu_inspectStmt
  nu_inspectDecl nu_inspectSpec nu_inspectPtr nu_ifPresent nu_rangeList nu_rangeInPlace
  nu_inspectFile

lemma nu_inspectChildren:
  assumes "dynType n \<noteq> None" and H: "\<And>c. c \<in> set (children n) \<Longrightarrow> noUnexpected (rec c)"
  shows "noUnexpected (inspectChildren rec n)"
  using assms
  by (cases n; simp only: inspectChildren.simps list_helper_defs;
      (intro nu_intros)?; (simp add: present_def iface_def nu_intros nu_panicM; fail)?)

lemma preorder_self: "n \<in> set (preorder n)"
  by (subst preorder.simps) simp

lemma preorder_child: "c \<in> set (children n) \<Longrightarrow> m \<in> set (preorder c) \<Longrightarrow> m \<in> set (preorder n)"
  by (subst preorder.simps) auto

lemma Inspect_noUnexpected:
  "(\<And>m. m \<in> set (preorder n) \<Longrightarrow> dynType m \<noteq> None) \<Longrightarrow> noUnexpected (Inspect v n)"
proof (induction v n rule: Inspect.induct)
  case (1 v n)
  have n: "dynType n \<noteq> None"
    using "1.prems" [of n] by (simp add: preorder_self)
  have "noUnexpected (Inspect v c)" if "c \<in> set (children n)" for c
  proof (rule "1.IH" [of True c])
    fix m assume "m \<in> set (preorder c)"
    then have "m \<in> set (preorder n)"
      using that by (rule preorder_child [rotated])
    then show "dynType m \<noteq> None" by (rule "1.prems")
  qed (use that in simp_all)
  then have "noUnexpected (inspectChildren (Inspect v) n)"
    using n by (intro nu_inspectChildren)
  moreover have "noUnexpected (Visit v m)" for m
    by (simp add: noUnexpected_def Visit_def split: prod.split)
  ultimately show ?case
    by (subst Inspect.simps) (auto intro!: nu_bindM nu_returnM)
qed

section \<open>The recording visitor does what the visitor does\<close>

lemma relM_if:
  "(b \<Longrightarrow> relM R m1 m1') \<Longrightarrow> (\<not> b \<Longrightarrow> relM R m2 m2') \<Longrightarrow>
   relM R (if b then m1 else m2) (if b then m1' else m2')"
  by simp

text \<open>
  A traversal with \<open>recording v\<close> ends with the outcome of the traversal with \<open>v\<close>, and
  its final state with the log erased is the final state of the traversal with \<open>v\<close>: what
  is proved of the calls that \<open>recording v\<close> logs is proved of the calls that \<open>v\<close> receives.
\<close>

definition erased :: "('e \<times> call list) inspectorImpl \<Rightarrow> 'e inspectorImpl \<Rightarrow> bool" where
  "erased s t = (t = erase s)"

lemma erase_node_update: "erase (s\<lparr>node := n\<rparr>) = (erase s)\<lparr>node := n\<rparr>"
  by (simp add: erase_def)

lemma relM_erased_Visit: "relM erased (Visit (recording v) n) (Visit v n)"
  by (simp add: relM_def erased_def Visit_def recording_def erase_node_update case_prod_beta)
     (simp add: erase_def)

lemma relM_erased_Inspect: "relM erased (Inspect (recording v) n) (Inspect v n)"
proof (induction n rule: measure_induct_rule [of size])
  case (less n)
  have ch: "relM erased (inspectChildren (Inspect (recording v)) n) (inspectChildren (Inspect v) n)"
    by (rule relM_inspectChildren) (simp add: less children_size)
  show ?case
    by (subst (1 2) Inspect.simps)
       (intro relM_bindM relM_erased_Visit relM_if relM_returnM ch)
qed

lemma Inspect_recording:
  "fst (Inspect (recording v) n s) = fst (Inspect v n (erase s)) \<and>
   erase (snd (Inspect (recording v) n s)) = snd (Inspect v n (erase s))"
  using relM_erased_Inspect [of v n] by (simp add: relM_def erased_def)

section \<open>The method on visitors that never replace\<close>

text \<open>
  Two inspector states are \<open>envEq\<close> when they differ in the cursor at most. With a visitor
  that never calls \<^verbatim>\<open>Replace\<close> and with enough fuel, the method \<^verbatim>\<open>Inspect\<close> and the
  function of walk.go end with the same outcome, in states that differ in the cursor at most.
\<close>

definition envEq :: "'e inspectorImpl \<Rightarrow> 'e inspectorImpl \<Rightarrow> bool" where
  "envEq s s' = (env s = env s')"

lemma envEq_node_update: "envEq s s' \<Longrightarrow> s\<lparr>node := n\<rparr> = s'\<lparr>node := n\<rparr>"
  by (cases s, cases s') (simp add: envEq_def)





lemma InspectRepl_stop:
  assumes "v (s\<lparr>node := a\<rparr>) a = (False, s')"
  shows "InspectRepl (Suc k) v a s = (Ok (node s'), s'\<lparr>node := Nil\<rparr>)"
  by (simp add: bindM_def VisitRepl_def assms returnM_def)

section \<open>More fuel does not change a run that ended\<close>

text \<open>
  \<open>extends m m'\<close> says that wherever \<open>m\<close> ends without running out of fuel, \<open>m'\<close> ends in
  the same way. The method with more fuel extends the method with less: a result of
  \<open>InspectRepl\<close> other than \<open>OutOfFuel\<close> is the result for every larger fuel.
\<close>

definition extends :: "('a, 'e) M \<Rightarrow> ('a, 'e) M \<Rightarrow> bool" where
  "extends m m' = (\<forall>s. fst (m s) \<noteq> OutOfFuel \<longrightarrow> m' s = m s)"

lemma ext_refl: "extends m m"
  by (simp add: extends_def)

lemma ext_bindM:
  assumes "extends m m'" and "\<And>a. extends (f a) (f' a)"
  shows "extends (bindM m f) (bindM m' f')"
  unfolding extends_def
proof (intro allI impI)
  fix s
  assume nf: "fst (bindM m f s) \<noteq> OutOfFuel"
  obtain r t where ms: "m s = (r, t)" by (cases "m s")
  with nf have "r \<noteq> OutOfFuel" by (auto simp: bindM_def)
  with assms(1) ms have ms': "m' s = (r, t)" by (simp add: extends_def)
  show "bindM m' f' s = bindM m f s"
  proof (cases r)
    case (Ok a)
    with nf ms have "fst (f a t) \<noteq> OutOfFuel" by (simp add: bindM_def)
    with assms(2) have "f' a t = f a t" by (simp add: extends_def)
    with Ok ms ms' show ?thesis by (simp add: bindM_def)
  qed (simp_all add: bindM_def ms ms')
qed

lemma ext_inspectExpr: "extends (rec x) (rec' x) \<Longrightarrow> extends (inspectExpr rec x) (inspectExpr rec' x)"
  by (simp add: inspectExpr_def ext_bindM ext_refl)

lemma ext_inspectStmt: "extends (rec x) (rec' x) \<Longrightarrow> extends (inspectStmt rec x) (inspectStmt rec' x)"
  by (simp add: inspectStmt_def ext_bindM ext_refl)

lemma ext_inspectDecl: "extends (rec x) (rec' x) \<Longrightarrow> extends (inspectDecl rec x) (inspectDecl rec' x)"
  by (simp add: inspectDecl_def ext_bindM ext_refl)

lemma ext_inspectSpec: "extends (rec x) (rec' x) \<Longrightarrow> extends (inspectSpec rec x) (inspectSpec rec' x)"
  by (simp add: inspectSpec_def ext_bindM ext_refl)

lemma ext_inspectPtr:
  "extends (rec (iface k x)) (rec' (iface k x)) \<Longrightarrow> extends (inspectPtr k rec x) (inspectPtr k rec' x)"
  by (simp add: inspectPtr_def ext_bindM ext_refl)

lemma ext_ifPresent: "(x \<noteq> Nil \<Longrightarrow> extends m m') \<Longrightarrow> extends (ifPresent x m) (ifPresent x m')"
  by (simp add: ifPresent_def ext_refl)

lemma ext_rangeList:
  "(\<And>x. x \<in> set xs \<Longrightarrow> extends (f x) (g x)) \<Longrightarrow> extends (rangeList f xs) (rangeList g xs)"
  by (induction xs) (auto intro!: ext_bindM ext_refl)

lemma ext_rangeInPlace:
  "(\<And>x. x \<in> set (elems list) \<Longrightarrow> extends (f x) (g x)) \<Longrightarrow>
   extends (rangeInPlace f list) (rangeInPlace g list)"
  by (cases list) (simp_all add: rangeInPlace_def elems_def ext_bindM ext_rangeList ext_refl)

lemma ext_inspectFile:
  "extends (rec (iface KFile (snd lf))) (rec' (iface KFile (snd lf)))
   \<Longrightarrow> extends (inspectFile rec lf) (inspectFile rec' lf)"
  by (simp add: inspectFile_def ext_bindM ext_inspectPtr ext_refl)

lemma ext_if:
  "(b \<Longrightarrow> extends m1 m1') \<Longrightarrow> (\<not> b \<Longrightarrow> extends m2 m2') \<Longrightarrow>
   extends (if b then m1 else m2) (if b then m1' else m2')"
  by simp

lemmas ext_intros = ext_bindM ext_inspectExpr ext_inspectStmt ext_inspectDecl
  ext_inspectSpec ext_inspectPtr ext_ifPresent ext_rangeList ext_rangeInPlace ext_inspectFile

lemma ext_inspectChildren:
  assumes H: "\<And>c. extends (rec c) (rec' c)"
  shows "extends (inspectChildren rec n) (inspectChildren rec' n)"
  using H
  by (cases n; simp only: inspectChildren.simps list_helper_defs;
      (intro ext_intros)?; (simp add: ext_refl; fail)?)

lemma InspectRepl_Suc_extends: "extends (InspectRepl fuel v n) (InspectRepl (Suc fuel) v n)"
proof (induction fuel arbitrary: n)
  case 0
  show ?case by (simp add: extends_def outOfFuel_def)
next
  case (Suc fuel)
  have "extends
      (bindM (VisitRepl v n) (\<lambda>r.
         if \<not> snd r then returnM (fst r)
         else bindM (inspectChildren (InspectRepl fuel v) (fst r)) (\<lambda>n'.
              bindM (VisitRepl v Nil) (\<lambda>_. returnM n'))))
      (bindM (VisitRepl v n) (\<lambda>r.
         if \<not> snd r then returnM (fst r)
         else bindM (inspectChildren (InspectRepl (Suc fuel) v) (fst r)) (\<lambda>n'.
              bindM (VisitRepl v Nil) (\<lambda>_. returnM n'))))"
    by (intro ext_bindM ext_if ext_inspectChildren Suc ext_refl)
  then show ?case
    by (simp only: InspectRepl.simps(2) [symmetric])
qed

lemma InspectRepl_more_fuel:
  assumes "fst (InspectRepl fuel v n s) \<noteq> OutOfFuel" and "fuel \<le> fuel'"
  shows "InspectRepl fuel' v n s = InspectRepl fuel v n s"
  using assms(2,1)
proof (induction fuel' rule: dec_induct)
  case base
  show ?case by simp
next
  case (step k)
  then have "InspectRepl k v n s = InspectRepl fuel v n s" by simp
  moreover from this step.prems have "fst (InspectRepl k v n s) \<noteq> OutOfFuel" by simp
  then have "InspectRepl (Suc k) v n s = InspectRepl k v n s"
    using InspectRepl_Suc_extends [of k v n] by (simp add: extends_def)
  ultimately show ?case by simp
qed

section \<open>The loop of the list helpers\<close>

lemma rangeList_slotwise:
  "rangeList f xs s = (Ok ys, s') \<Longrightarrow>
   length ys = length xs \<and>
   (\<exists>ts. length ts = Suc (length xs) \<and> ts ! 0 = s \<and> ts ! length xs = s' \<and>
      (\<forall>k < length xs. f (xs ! k) (ts ! k) = (Ok (ys ! k), ts ! Suc k)))"
proof (induction xs arbitrary: s ys)
  case Nil
  then show ?case
    by (auto simp: returnM_def intro!: exI [of _ "[s]"])
next
  case (Cons x xs)
  from Cons.prems obtain y s1 ys' where
    fx: "f x s = (Ok y, s1)" and r: "rangeList f xs s1 = (Ok ys', s')" and ys: "ys = y # ys'"
    by (auto simp: bindM_def returnM_def split: prod.splits outcome.splits)
  from Cons.IH [OF r] obtain ts where
    ts: "length ys' = length xs" "length ts = Suc (length xs)" "ts ! 0 = s1" "ts ! length xs = s'"
      "\<forall>k < length xs. f (xs ! k) (ts ! k) = (Ok (ys' ! k), ts ! Suc k)"
    by auto
  have "\<forall>k < length (x # xs). f ((x # xs) ! k) ((s # ts) ! k) = (Ok (ys ! k), (s # ts) ! Suc k)"
  proof (intro allI impI)
    fix k assume "k < length (x # xs)"
    then show "f ((x # xs) ! k) ((s # ts) ! k) = (Ok (ys ! k), (s # ts) ! Suc k)"
      using fx ts ys by (cases k) auto
  qed
  then show ?case
    using ts ys by (auto intro!: exI [of _ "s # ts"])
qed

text \<open>
  \<open>slotwise helper slot\<close> says of a list helper whose element step is \<open>slot\<close>: when the
  helper returns a slice, the slice is not nil and has the length of the input, and there
  is a sequence of states, from the state before the loop to the state after it, such that
  the step on the element at index \<open>k\<close>, run in the state at index \<open>k\<close>, returns the
  element at index \<open>k\<close> of the result and leaves the state at index \<open>k + 1\<close>.
\<close>

definition slotwise ::
  "((Node \<Rightarrow> (Node, 'e) M) \<Rightarrow> Node slice \<Rightarrow> (Node slice, 'e) M) \<Rightarrow>
   ((Node \<Rightarrow> (Node, 'e) M) \<Rightarrow> Node \<Rightarrow> (Node, 'e) M) \<Rightarrow> bool" where
  "slotwise helper slot = (\<forall>rec list s ys s'.
     helper rec list s = (Ok ys, s') \<longrightarrow>
       ys \<noteq> None \<and> length (elems ys) = length (elems list) \<and>
       (\<exists>ts. length ts = Suc (length (elems list)) \<and> ts ! 0 = s \<and>
          ts ! length (elems list) = s' \<and>
          (\<forall>k < length (elems list).
             slot rec (elems list ! k) (ts ! k) = (Ok (elems ys ! k), ts ! Suc k))))"

lemma slotwise_helper:
  "slotwise (\<lambda>rec list. bindM (rangeList (slot rec) (elems list)) (\<lambda>newList. returnM (Some newList)))
     slot"
  unfolding slotwise_def
proof (intro allI impI)
  fix rec list s ys s'
  assume "bindM (rangeList (slot rec) (elems list)) (\<lambda>newList. returnM (Some newList)) s = (Ok ys, s')"
  then obtain zs where zs: "rangeList (slot rec) (elems list) s = (Ok zs, s')" and ys: "ys = Some zs"
    by (auto simp: bindM_def returnM_def split: prod.splits outcome.splits)
  show "ys \<noteq> None \<and> length (elems ys) = length (elems list) \<and>
       (\<exists>ts. length ts = Suc (length (elems list)) \<and> ts ! 0 = s \<and>
          ts ! length (elems list) = s' \<and>
          (\<forall>k < length (elems list).
             slot rec (elems list ! k) (ts ! k) = (Ok (elems ys ! k), ts ! Suc k)))"
    using rangeList_slotwise [OF zs] by (simp add: ys elems_simps)
qed

lemma list_helper_eqs:
  "inspectIdentList =
     (\<lambda>rec list. bindM (rangeList (inspectPtr KIdent rec) (elems list)) (\<lambda>newList. returnM (Some newList)))"
  "inspectExprList =
     (\<lambda>rec list. bindM (rangeList (inspectExpr rec) (elems list)) (\<lambda>newList. returnM (Some newList)))"
  "inspectStmtList =
     (\<lambda>rec list. bindM (rangeList (inspectStmt rec) (elems list)) (\<lambda>newList. returnM (Some newList)))"
  "inspectDeclList =
     (\<lambda>rec list. bindM (rangeList (inspectDecl rec) (elems list)) (\<lambda>newList. returnM (Some newList)))"
  by (intro ext, simp add: list_helper_defs)+

section \<open>The cursor\<close>

text \<open>
  \<open>withCurrent v\<close> is the visitor that sets the cursor to its node argument before it does
  what \<open>v\<close> does. Both engines already hand the visitor a cursor that holds the node
  argument, so the change of visitor changes nothing. \<open>cleared\<close> relates a state to itself
  when its cursor is nil.
\<close>

definition withCurrent :: "'e Visitor \<Rightarrow> 'e Visitor" where
  "withCurrent v i n = v (Replace n i) n"

lemma VisitRepl_withCurrent: "VisitRepl (withCurrent v) = VisitRepl v"
  by (intro ext) (simp add: VisitRepl_def withCurrent_def Replace_def)

lemma Visit_withCurrent: "Visit (withCurrent v) = Visit v"
  by (intro ext) (simp add: Visit_def withCurrent_def Replace_def)

lemma InspectRepl_withCurrent: "InspectRepl k (withCurrent v) = InspectRepl k v"
proof (induction k)
  case 0
  show ?case by (intro ext) simp
next
  case (Suc k)
  show ?case by (intro ext) (simp add: Suc VisitRepl_withCurrent cong: if_cong)
qed

lemma Inspect_withCurrent: "Inspect (withCurrent v) n = Inspect v n"
proof (induction v n rule: Inspect.induct)
  case (1 v n)
  have "inspectChildren (Inspect (withCurrent v)) n = inspectChildren (Inspect v) n"
    by (rule inspectChildren_cong) (simp_all add: "1.IH" [of True])
  then show ?case
    by (subst (1 2) Inspect.simps) (simp add: Visit_withCurrent cong: if_cong)
qed

definition cleared :: "'e inspectorImpl \<Rightarrow> 'e inspectorImpl \<Rightarrow> bool" where
  "cleared s s' = (node s = Nil \<and> s' = s)"

lemma VisitRepl_cleared: "node (snd (VisitRepl v n s)) = Nil"
  by (simp add: VisitRepl_def split: prod.split)

lemma relM_cleared_VisitRepl: "relM cleared (VisitRepl v n) (VisitRepl v n)"
  by (simp add: relM_def cleared_def VisitRepl_cleared)

lemma relM_cleared_InspectRepl: "relM cleared (InspectRepl k v n) (InspectRepl k v n)"
proof (induction k arbitrary: n)
  case 0
  show ?case by (simp add: relM_def outOfFuel_def)
next
  case (Suc k)
  show ?case
    unfolding InspectRepl.simps
    by (intro relM_bindM relM_cleared_VisitRepl relM_inspectChildren Suc relM_returnM relM_if)
qed

lemma InspectRepl_cleared: "node (snd (InspectRepl (Suc k) v n s)) = Nil"
proof -
  obtain r i' where v: "VisitRepl v n s = (Ok r, i')" and i': "node i' = Nil"
    by (cases "v (s\<lparr>node := n\<rparr>) n") (simp add: VisitRepl_def)
  have c: "cleared i' i'" using i' by (simp add: cleared_def)
  show ?thesis
  proof (cases "snd r")
    case False
    then show ?thesis by (simp add: bindM_def v returnM_def i')
  next
    case True
    have "relM cleared
       (bindM (inspectChildren (InspectRepl k v) (fst r)) (\<lambda>n'. bindM (VisitRepl v Nil) (\<lambda>_. returnM n')))
       (bindM (inspectChildren (InspectRepl k v) (fst r)) (\<lambda>n'. bindM (VisitRepl v Nil) (\<lambda>_. returnM n')))"
      by (intro relM_bindM relM_cleared_VisitRepl relM_inspectChildren relM_cleared_InspectRepl relM_returnM)
    from this [unfolded relM_def, rule_format, OF c] show ?thesis
      using True by (simp add: bindM_def [of "VisitRepl v n"] v cleared_def)
  qed
qed

section \<open>Closing calls made to another visitor\<close>

text \<open>
  \<open>noReplace v\<close> is the visitor \<open>v\<close> with its calls to \<^verbatim>\<open>Replace\<close> left out: it returns what
  \<open>v\<close> returns and updates the captured variables as \<open>v\<close> does, and leaves the cursor as
  it found it. \<open>InspectClosing v c\<close> and \<open>InspectReplClosing fuel v c\<close> are the two engines
  with the closing calls \<^verbatim>\<open>Visit(nil)\<close> made to the visitor \<open>c\<close>; with \<open>c = v\<close> they are
  the engines of the source.
\<close>

definition noReplace :: "'e Visitor \<Rightarrow> 'e Visitor" where
  "noReplace v i n = (case v i n of (r, i') \<Rightarrow> (r, i'\<lparr>node := node i\<rparr>))"

function InspectClosing :: "'e Visitor \<Rightarrow> 'e Visitor \<Rightarrow> Node \<Rightarrow> (Node, 'e) M" where
  "InspectClosing v c n =
     bindM (Visit v n) (\<lambda>i.
       if \<not> i then returnM n
       else bindM (inspectChildren (InspectClosing v c) n) (\<lambda>n'.
            bindM (Visit c Nil) (\<lambda>_.
            returnM n')))"
  by pat_completeness auto
termination
  by (relation "measure (\<lambda>(v, c, n). size n)") (auto simp: children_size)

declare InspectClosing.simps [simp del]

primrec InspectReplClosing :: "nat \<Rightarrow> 'e Visitor \<Rightarrow> 'e Visitor \<Rightarrow> Node \<Rightarrow> (Node, 'e) M" where
  "InspectReplClosing 0 v c n = outOfFuel"
| "InspectReplClosing (Suc fuel) v c n =
     bindM (VisitRepl v n) (\<lambda>r.
       if \<not> snd r then returnM (fst r)
       else bindM (inspectChildren (InspectReplClosing fuel v c) (fst r)) (\<lambda>n'.
            bindM (VisitRepl c Nil) (\<lambda>_.
            returnM n')))"

lemma InspectClosing_same: "InspectClosing v v n = Inspect v n"
proof (induction v n rule: Inspect.induct)
  case (1 v n)
  have "inspectChildren (InspectClosing v v) n = inspectChildren (Inspect v) n"
    by (rule inspectChildren_cong) (simp_all add: "1.IH" [of True])
  then show ?case
    by (subst Inspect.simps, subst InspectClosing.simps) (simp cong: if_cong)
qed

lemma InspectReplClosing_same: "InspectReplClosing k v v = InspectRepl k v"
proof (induction k)
  case 0
  show ?case by (intro ext) simp
next
  case (Suc k)
  show ?case by (intro ext) (simp add: Suc cong: if_cong)
qed

lemma VisitRepl_closing_noReplace:
  "bindM (VisitRepl (noReplace v) Nil) (\<lambda>_. returnM a) = bindM (VisitRepl v Nil) (\<lambda>_. returnM a)"
  by (intro ext) (simp add: bindM_def VisitRepl_def noReplace_def returnM_def split: prod.split)

lemma InspectReplClosing_noReplace:
  "InspectReplClosing k v (noReplace v) = InspectReplClosing k v v"
proof (induction k)
  case 0
  show ?case by (intro ext) simp
next
  case (Suc k)
  show ?case by (intro ext) (simp add: Suc VisitRepl_closing_noReplace cong: if_cong)
qed

lemma relM_envEq_Visit: "relM envEq (Visit v n) (Visit v n)"
  unfolding relM_def
proof (intro allI impI)
  fix s s' :: "'a inspectorImpl"
  assume "envEq s s'"
  then have "s\<lparr>node := n\<rparr> = s'\<lparr>node := n\<rparr>" by (rule envEq_node_update)
  then show "fst (Visit v n s) = fst (Visit v n s') \<and> envEq (snd (Visit v n s)) (snd (Visit v n s'))"
    by (simp add: Visit_def envEq_def split: prod.split)
qed

lemma relM_envEq_closing: "relM envEq (Visit v Nil) (Visit (noReplace v) Nil)"
  unfolding relM_def
proof (intro allI impI)
  fix s s' :: "'a inspectorImpl"
  assume "envEq s s'"
  then have "s\<lparr>node := Nil\<rparr> = s'\<lparr>node := Nil\<rparr>" by (rule envEq_node_update)
  then show "fst (Visit v Nil s) = fst (Visit (noReplace v) Nil s') \<and>
     envEq (snd (Visit v Nil s)) (snd (Visit (noReplace v) Nil s'))"
    by (simp add: Visit_def envEq_def noReplace_def split: prod.split)
qed

lemma InspectClosing_noReplace:
  "relM envEq (InspectClosing v v n) (InspectClosing v (noReplace v) n)"
proof (induction n rule: measure_induct_rule [of size])
  case (less n)
  have ch: "relM envEq (inspectChildren (InspectClosing v v) n)
                       (inspectChildren (InspectClosing v (noReplace v)) n)"
    by (rule relM_inspectChildren) (simp add: less children_size)
  show ?case
    by (subst (1 2) InspectClosing.simps)
       (intro relM_bindM relM_envEq_Visit relM_if relM_returnM ch relM_envEq_closing)
qed

section \<open>The visitors and a tree of the tests\<close>

text \<open>
  \<open>changePointerToInterface\<close> is the visitor of \<^verbatim>\<open>TestChangePointerToInterface\<close>: it
  replaces a \<^verbatim>\<open>*ast.StarExpr\<close> by the selector \<^verbatim>\<open>pkg.InterfaceName\<close> and returns false
  there, and returns true everywhere else. \<open>continueAll\<close> returns true and changes nothing.
  \<open>sampleFile\<close> is a file with one function, \<^verbatim>\<open>func Widget(w *T) { w.n++ }\<close>, and one
  comment group in the file's comment list; none of the slices that a list helper walks
  is nil in it. \<open>defaultClause\<close> is the clause \<^verbatim>\<open>default: x\<close> of a switch statement: the
  \<^verbatim>\<open>List\<close> of a default clause is the nil slice.
\<close>

definition continueAll :: "unit Visitor" where
  "continueAll i n = (True, i)"

definition changePointerToInterface :: "unit Visitor" where
  "changePointerToInterface i n = (case n of
       StarExpr x \<Rightarrow> (False, Replace (SelectorExpr (Ident ''pkg'') (Ident ''InterfaceName'')) i)
     | _ \<Rightarrow> (True, i))"

definition sampleField :: Node where
  "sampleField = Field Nil (Some [Ident ''w'']) (StarExpr (Ident ''T'')) Nil Nil"

definition sampleFile :: Node where
  "sampleFile = File Nil (Ident ''main'')
     (Some [FuncDecl Nil Nil (Ident ''Widget'') (FuncType (FieldList (Some [sampleField])) Nil)
        (BlockStmt (Some [IncDecStmt (SelectorExpr (Ident ''w'') (Ident ''n'')) 37]))])
     None (Some [Ident ''T'']) (Some [CommentGroup (Some [Comment ''// c''])])"


definition start :: "(unit \<times> call list) inspectorImpl" where
  "start = \<lparr>node = Nil, env = ((), [])\<rparr>"

lemma wellFormed_sampleFile: "wellFormed sampleFile"
  by code_simp

lemma noNilList_sampleFile: "noNilList sampleFile"
  by code_simp

lemma alwaysContinue_continueAll: "alwaysContinue continueAll"
  by (simp add: alwaysContinue_def continueAll_def)



text \<open>
  \<open>replaceOnClose\<close> returns true and calls \<^verbatim>\<open>Replace\<close> with an identifier whenever its
  node argument is nil.
\<close>

definition replaceOnClose :: "unit Visitor" where
  "replaceOnClose i n = (True, if n = Nil then Replace (Ident ''x'') i else i)"

text \<open>
  In the method, a replacement installed by a visitor that then returns false is what the
  slot receives.
\<close>

lemma replacement_installed:
  assumes "v (s\<lparr>node := a\<rparr>) a = (False, s')" and "isExpr (node s')"
  shows "inspectExpr (InspectRepl (Suc fuel) v) a s = (Ok (node s'), s'\<lparr>node := Nil\<rparr>)"
proof -
  have r: "InspectRepl (Suc fuel) v a s = (Ok (node s'), s'\<lparr>node := Nil\<rparr>)"
    by (rule InspectRepl_stop [where v = v and s = s and a = a and s' = s' and k = fuel, OF assms(1)])
  have a: "assertIface implementsExpr (node s') = returnM (node s')"
    using assms(2) by (simp add: isA_assertIface isExpr_def)
  show ?thesis
    unfolding inspectExpr_def bindM_def r by (simp add: a returnM_def)
qed

section \<open>The claims\<close>

text \<open>
  The theorems below are stated for the function \<^verbatim>\<open>Inspect\<close> of walk.go (\<open>Inspect\<close>) and,
  where they say so, for the method \<^verbatim>\<open>Inspect\<close> of the inspector whose \<^verbatim>\<open>Visit\<close> returns
  the replacement (\<open>InspectRepl\<close>). A visitor is any function of the inspector state and
  the node; \<open>recording v\<close> logs the calls that \<open>v\<close> receives.
\<close>

text \<open>
  C1 (replacement takes effect). The visitor of the test replaces the type \<^verbatim>\<open>*T\<close> of a
  field by \<^verbatim>\<open>pkg.InterfaceName\<close>, a node of another type that fits the slot. The function
  \<open>Inspect\<close> of walk.go returns the field with the type it had; the method returns it
  with the replacement in the slot.
\<close>

theorem replace_ignored_by_walk:
  "fst (Inspect changePointerToInterface sampleField (NewInspector ())) = Ok sampleField \<and>
   fst (InspectRepl 3 changePointerToInterface sampleField (NewInspector ())) =
     Ok (Field Nil (Some [Ident ''w'']) (SelectorExpr (Ident ''pkg'') (Ident ''InterfaceName''))
          Nil Nil)"
proof
  show "fst (Inspect changePointerToInterface sampleField (NewInspector ())) = Ok sampleField"
    by code_simp
  show "fst (InspectRepl 3 changePointerToInterface sampleField (NewInspector ())) =
     Ok (Field Nil (Some [Ident ''w'']) (SelectorExpr (Ident ''pkg'') (Ident ''InterfaceName''))
          Nil Nil)"
    by code_simp
qed

text \<open>
  C2 (full coverage). On a well-formed tree and with a visitor that always returns true,
  the nodes of the calls other than the closing calls are, in the order and number of the
  calls, the nodes reachable from the root through the child fields in document order.
  For a file these are the file, the nodes of its doc comment if it has one, of its name
  and of its declarations: the file's comment list is not among them.
\<close>

theorem full_coverage:
  assumes "wellFormed n" and "alwaysContinue v"
  shows "preCalls (newCalls s (snd (Inspect (recording v) n s))) = preorder n \<and>
         (\<forall>doc name decls imports unresolved comments.
            n = File doc name decls imports unresolved comments \<longrightarrow>
            preorder n = n # concat (map preorder (present doc @ [name] @ elems decls)))"
proof
  obtain L where "calls (snd (Inspect (recording v) n s)) = calls s @ L" "preCalls L = preorder n"
    using Inspect_preorder [OF assms(2) assms(1), of s] by auto
  then show "preCalls (newCalls s (snd (Inspect (recording v) n s))) = preorder n"
    by (simp add: newCalls_def)
next
  show "\<forall>doc name decls imports unresolved comments.
            n = File doc name decls imports unresolved comments \<longrightarrow>
            preorder n = n # concat (map preorder (present doc @ [name] @ elems decls))"
  proof (intro allI impI)
    fix doc name decls imps unresolved comments
    assume n: "n = File doc name decls imps unresolved comments"
    with assms(1) have "isPtr KIdent name"
      by (auto dest: wellFormed_slotsOk)
    then have "iface KIdent name = name"
      by (simp add: isPtr_def isA_iface)
    then show "preorder n = n # concat (map preorder (present doc @ [name] @ elems decls))"
      by (subst preorder.simps) (simp add: n)
  qed
qed

theorem full_coverage_witness:
  "wellFormed sampleFile \<and> alwaysContinue continueAll \<and>
   preCalls (newCalls start (snd (Inspect (recording continueAll) sampleFile start))) =
     preorder sampleFile \<and>
   CommentGroup (Some [Comment ''// c'']) \<notin> set (preorder sampleFile)"
proof -
  have c: "CommentGroup (Some [Comment ''// c'']) \<notin> set (preorder sampleFile)"
    by code_simp
  show ?thesis
    using full_coverage [of sampleFile continueAll start]
      wellFormed_sampleFile alwaysContinue_continueAll c
    by simp
qed

text \<open>
  C3 (closing-call pairing). On a well-formed tree the calls a visitor receives during
  \<open>Inspect\<close> are one complete visit of the root as \<open>consume\<close> reads it: a call that
  returned true is followed by the complete visits of the children and then by exactly
  one closing call; a call that returned false is followed by nothing of that node.
\<close>

theorem closing_call_pairing:
  "wellFormed n \<Longrightarrow> consume n (newCalls s (snd (Inspect (recording v) n s))) = Some []"
proof -
  assume "wellFormed n"
  then obtain L where "calls (snd (Inspect (recording v) n s)) = calls s @ L"
    "\<And>rest. consume n (L @ rest) = Some rest"
    using Inspect_consume [of n v s] by auto
  then show ?thesis
    using \<open>\<And>rest. consume n (L @ rest) = Some rest\<close> [of "[]"] by (simp add: newCalls_def)
qed

theorem closing_call_pairing_witness:
  "wellFormed sampleFile \<and>
   consume sampleFile
     (newCalls start (snd (Inspect (recording changePointerToInterface) sampleFile start))) = Some []"
  using closing_call_pairing [of sampleFile start changePointerToInterface] wellFormed_sampleFile
  by simp




text \<open>
  C5 (skip-children honoured). When the visitor returns false for a node, \<open>Inspect\<close>
  returns that node as it is and the visitor has received that one call and no other:
  no node below it is passed to the visitor and none is changed.
\<close>

theorem skip_children:
  assumes "\<not> fst (v (erase (s\<lparr>node := a\<rparr>)) a)"
  shows "fst (Inspect (recording v) a s) = Ok a \<and>
         newCalls s (snd (Inspect (recording v) a s)) = [(a, False)]"
proof -
  have "\<not> fst (recording v (s\<lparr>node := a\<rparr>) a)"
    using assms by (simp add: recording_def case_prod_beta)
  moreover have "calls (snd (recording v (s\<lparr>node := a\<rparr>) a)) = calls s @ [(a, fst (recording v (s\<lparr>node := a\<rparr>) a))]"
    using recording_calls [of v "s\<lparr>node := a\<rparr>" a] by (simp add: calls_node_update)
  ultimately show ?thesis
    by (subst (1 2) Inspect.simps)
       (auto simp: bindM_def Visit_def returnM_def newCalls_def split: prod.split)
qed

theorem skip_children_witness:
  "\<not> fst (changePointerToInterface (erase (start\<lparr>node := StarExpr (Ident ''T'')\<rparr>)) (StarExpr (Ident ''T''))) \<and>
   fst (Inspect (recording changePointerToInterface) (StarExpr (Ident ''T'')) start) =
     Ok (StarExpr (Ident ''T'')) \<and>
   newCalls start (snd (Inspect (recording changePointerToInterface) (StarExpr (Ident ''T'')) start)) =
     [(StarExpr (Ident ''T''), False)]"
proof -
  have h: "\<not> fst (changePointerToInterface (erase (start\<lparr>node := StarExpr (Ident ''T'')\<rparr>)) (StarExpr (Ident ''T'')))"
    by (simp add: changePointerToInterface_def)
  show ?thesis
    using skip_children [where v = changePointerToInterface and s = start and a = "StarExpr (Ident ''T'')"] h
    by simp
qed

text \<open>
  C6 (the cursor), as the claim states it, fails for the inspector whose \<^verbatim>\<open>Visit\<close> returns
  the continuation only: after \<^verbatim>\<open>Visit\<close> has returned, the cursor still holds the node.
\<close>

theorem cursor_not_cleared_counterexample:
  "Current (snd (Visit continueAll (Ident ''x'') (NewInspector ()))) = Ident ''x'' \<and>
   Current (snd (Visit continueAll (Ident ''x'') (NewInspector ()))) \<noteq> Nil"
  by (simp add: Visit_def continueAll_def NewInspector_def Current_def)

text \<open>
  C6, amended. In both inspectors \<^verbatim>\<open>Visit\<close> calls the visitor once, with an inspector
  whose \<^verbatim>\<open>Current()\<close> is the node argument of the call (nil in a closing call), and during
  a whole traversal a visitor that first sets the cursor to its node argument behaves as
  the visitor itself. The inspector whose \<^verbatim>\<open>Visit\<close> returns the replacement clears the
  cursor when the callback has returned: it is nil after \<^verbatim>\<open>Visit\<close> and after \<^verbatim>\<open>Inspect\<close>.
  The inspector whose \<^verbatim>\<open>Visit\<close> returns the continuation only leaves the cursor as the
  callback left it.
\<close>

theorem cursor_during_and_after_callback:
  "(\<exists>i. Current i = n \<and> Visit v n s = (Ok (fst (v i n)), snd (v i n))) \<and>
   (\<exists>i. Current i = n \<and>
        VisitRepl v n s = (Ok (Current (snd (v i n)), fst (v i n)), (snd (v i n))\<lparr>node := Nil\<rparr>)) \<and>
   Inspect (withCurrent v) n = Inspect v n \<and>
   InspectRepl fuel (withCurrent v) = InspectRepl fuel v \<and>
   Current (snd (VisitRepl v n s)) = Nil \<and>
   Current (snd (InspectRepl (Suc fuel) v n s)) = Nil \<and>
   Current (snd (Visit v n s)) = Current (snd (v (s\<lparr>node := n\<rparr>) n))"
proof (intro conjI)
  show "\<exists>i. Current i = n \<and> Visit v n s = (Ok (fst (v i n)), snd (v i n))"
    by (rule exI [of _ "s\<lparr>node := n\<rparr>"]) (simp add: Current_def Visit_def case_prod_beta)
  show "\<exists>i. Current i = n \<and>
        VisitRepl v n s = (Ok (Current (snd (v i n)), fst (v i n)), (snd (v i n))\<lparr>node := Nil\<rparr>)"
    by (rule exI [of _ "s\<lparr>node := n\<rparr>"]) (simp add: Current_def VisitRepl_def case_prod_beta)
  show "Inspect (withCurrent v) n = Inspect v n"
    by (rule Inspect_withCurrent)
  show "InspectRepl fuel (withCurrent v) = InspectRepl fuel v"
    by (rule InspectRepl_withCurrent)
  show "Current (snd (VisitRepl v n s)) = Nil"
    by (simp add: Current_def VisitRepl_cleared)
  show "Current (snd (InspectRepl (Suc fuel) v n s)) = Nil"
    by (simp only: Current_def InspectRepl_cleared)
  show "Current (snd (Visit v n s)) = Current (snd (v (s\<lparr>node := n\<rparr>) n))"
    by (simp add: Visit_def case_prod_beta)
qed

theorem cursor_during_and_after_callback_witness:
  "Current (snd (VisitRepl changePointerToInterface (StarExpr (Ident ''T'')) (NewInspector ()))) = Nil \<and>
   Current (snd (InspectRepl (Suc 9) changePointerToInterface sampleFile (NewInspector ()))) = Nil \<and>
   Current (snd (Visit changePointerToInterface (StarExpr (Ident ''T'')) (NewInspector ()))) =
     SelectorExpr (Ident ''pkg'') (Ident ''InterfaceName'')"
  using cursor_during_and_after_callback
    [of "StarExpr (Ident ''T'')" changePointerToInterface "NewInspector ()" 9]
    cursor_during_and_after_callback [of sampleFile changePointerToInterface "NewInspector ()" 9]
  by (simp add: changePointerToInterface_def Replace_def Current_def)

text \<open>
  C7 (Replace in a closing call). The tree a traversal returns, and what it leaves in the
  visitor's captured variables, are the same when the closing calls are made to the
  visitor with its calls to \<^verbatim>\<open>Replace\<close> left out: for the function of walk.go the two runs
  end with the same outcome and differ in the cursor at most, for the method they are the
  same run.
\<close>

theorem replace_in_closing_call_ignored:
  "fst (Inspect v n s) = fst (InspectClosing v (noReplace v) n s) \<and>
   env (snd (Inspect v n s)) = env (snd (InspectClosing v (noReplace v) n s)) \<and>
   InspectRepl fuel v n s = InspectReplClosing fuel v (noReplace v) n s"
proof -
  have "relM envEq (InspectClosing v v n) (InspectClosing v (noReplace v) n)"
    by (rule InspectClosing_noReplace)
  then have "fst (InspectClosing v v n s) = fst (InspectClosing v (noReplace v) n s) \<and>
      env (snd (InspectClosing v v n s)) = env (snd (InspectClosing v (noReplace v) n s))"
    by (simp add: relM_def envEq_def)
  then show ?thesis
    by (simp add: InspectClosing_same InspectReplClosing_noReplace InspectReplClosing_same)
qed

theorem replace_in_closing_call_ignored_witness:
  "fst (Inspect replaceOnClose sampleFile (NewInspector ())) = Ok sampleFile \<and>
   fst (InspectClosing replaceOnClose (noReplace replaceOnClose) sampleFile (NewInspector ())) =
     Ok sampleFile \<and>
   InspectRepl 9 replaceOnClose sampleFile (NewInspector ()) =
     InspectReplClosing 9 replaceOnClose (noReplace replaceOnClose) sampleFile (NewInspector ())"
proof -
  have "fst (Inspect replaceOnClose sampleFile (NewInspector ())) = Ok sampleFile"
    using noNilList_sampleFile
    by (simp add: Inspect_emptied wellFormed_sampleFile alwaysContinue_def replaceOnClose_def
          noNilList_def)
  then show ?thesis
    using replace_in_closing_call_ignored [of replaceOnClose sampleFile "NewInspector ()" 9]
    by simp
qed

text \<open>
  C8 (unknown variant). A node of a type outside the switch, for which the visitor
  returns true, makes \<open>Inspect\<close> end with the panic of the default branch; and \<open>Inspect\<close>
  ends with that panic only when one of the nodes it reaches is the nil interface or of a
  type outside the switch, so no node of a type of the switch takes the default branch.
\<close>

theorem unexpected_node_panics:
  "(\<forall>t. fst (v (s\<lparr>node := Other t\<rparr>) (Other t)) \<longrightarrow>
        fst (Inspect v (Other t) s) = Panic UnexpectedNodeType) \<and>
   (fst (Inspect v n s) = Panic UnexpectedNodeType \<longrightarrow> (\<exists>m \<in> set (preorder n). dynType m = None))"
proof
  show "\<forall>t. fst (v (s\<lparr>node := Other t\<rparr>) (Other t)) \<longrightarrow>
        fst (Inspect v (Other t) s) = Panic UnexpectedNodeType"
    by (subst Inspect.simps)
       (auto simp: bindM_def Visit_def returnM_def panicM_def split: prod.split)
next
  show "fst (Inspect v n s) = Panic UnexpectedNodeType \<longrightarrow> (\<exists>m \<in> set (preorder n). dynType m = None)"
  proof (rule impI, rule ccontr)
    assume p: "fst (Inspect v n s) = Panic UnexpectedNodeType"
      and "\<not> (\<exists>m \<in> set (preorder n). dynType m = None)"
    then have "noUnexpected (Inspect v n)"
      by (intro Inspect_noUnexpected) auto
    with p show False by (simp add: noUnexpected_def)
  qed
qed

theorem unexpected_node_panics_witness:
  "fst (continueAll ((NewInspector ())\<lparr>node := Other ''T''\<rparr>) (Other ''T'')) \<and>
   fst (Inspect continueAll (Other ''T'') (NewInspector ())) = Panic UnexpectedNodeType \<and>
   fst (Inspect continueAll (ParenExpr (Other ''T'')) (NewInspector ())) = Panic UnexpectedNodeType \<and>
   (\<exists>m \<in> set (preorder (ParenExpr (Other ''T''))). dynType m = None)"
proof -
  have h1: "fst (continueAll ((NewInspector ())\<lparr>node := Other ''T''\<rparr>) (Other ''T''))"
    by (simp add: continueAll_def)
  have h2: "fst (Inspect continueAll (ParenExpr (Other ''T'')) (NewInspector ())) = Panic UnexpectedNodeType"
    by code_simp
  show ?thesis
    using unexpected_node_panics [of continueAll "NewInspector ()" "ParenExpr (Other ''T'')"] h1 h2
    by blast
qed

text \<open>
  C9 (list helpers). When one of the four list helpers returns, its slice is a slice of
  its own (not nil, whatever the input) of the length of the input, and its slot \<open>k\<close> holds
  what \<^verbatim>\<open>Inspect(i, x).(T)\<close> returned for the element \<open>x\<close> at index \<open>k\<close> of the input, run
  in the state the earlier elements left: there is a sequence of states \<open>ts\<close>, from the
  state before the loop to the state after it, that the calls step through in order.
  \<open>slotwise helper slot\<close> says this of a helper whose element step is \<open>slot\<close>.
\<close>

theorem list_helpers_slotwise:
  "slotwise inspectIdentList (inspectPtr KIdent) \<and> slotwise inspectExprList inspectExpr \<and>
   slotwise inspectStmtList inspectStmt \<and> slotwise inspectDeclList inspectDecl"
  by (simp add: list_helper_eqs slotwise_helper)

theorem list_helpers_slotwise_witness:
  "\<exists>ys s'. inspectExprList (Inspect continueAll) (Some [Ident ''a'', Ident ''b'']) (NewInspector ()) =
       (Ok ys, s') \<and>
     ys \<noteq> None \<and> length (elems ys) = length (elems (Some [Ident ''a'', Ident ''b'']))"
proof -
  have "fst (inspectExprList (Inspect continueAll) (Some [Ident ''a'', Ident ''b'']) (NewInspector ())) =
      Ok (Some [Ident ''a'', Ident ''b''])"
    by code_simp
  then obtain s' where e:
    "inspectExprList (Inspect continueAll) (Some [Ident ''a'', Ident ''b'']) (NewInspector ()) =
      (Ok (Some [Ident ''a'', Ident ''b'']), s')"
    by (metis prod.collapse)
  have "slotwise inspectExprList (inspectExpr :: (Node \<Rightarrow> (Node, unit) M) \<Rightarrow> Node \<Rightarrow> (Node, unit) M)"
    using list_helpers_slotwise by blast
  then have "Some [Ident ''a'', Ident ''b''] \<noteq> None \<and>
      length (elems (Some [Ident ''a'', Ident ''b''])) = length (elems (Some [Ident ''a'', Ident ''b'']))"
    using e unfolding slotwise_def by blast
  with e show ?thesis by blast
qed

text \<open>
  C10 (nil root). \<open>Inspect\<close> on the nil interface calls the visitor with the nil node, the
  very call a closing call makes (the inspector is left as \<open>Visit\<close> on nil leaves it); when
  the visitor returns true the nil node reaches the default branch and \<open>Inspect\<close> panics,
  and when it returns false \<open>Inspect\<close> returns nil.
\<close>

theorem inspect_nil:
  "Inspect v Nil s =
     (if fst (v (s\<lparr>node := Nil\<rparr>) Nil) then (Panic UnexpectedNodeType, snd (v (s\<lparr>node := Nil\<rparr>) Nil))
      else (Ok Nil, snd (v (s\<lparr>node := Nil\<rparr>) Nil))) \<and>
   snd (Inspect v Nil s) = snd (Visit v Nil s)"
  by (subst (1 2) Inspect.simps)
     (auto simp: bindM_def Visit_def returnM_def panicM_def split: prod.split)

theorem inspect_nil_witness:
  "fst (Inspect continueAll Nil (NewInspector ())) = Panic UnexpectedNodeType \<and>
   snd (Inspect continueAll Nil (NewInspector ())) = snd (Visit continueAll Nil (NewInspector ()))"
  using inspect_nil [of continueAll "NewInspector ()"]
  by (simp add: continueAll_def Visit_def)

end
